theory Spec2Isabelle
  imports Complex_Main "HOL-Library.Extended_Nat" "HOL-Library.Multiset"
begin

section \<open>Data model (types.ts)\<close>

text \<open>
  Only the fields that the enrichment, correlation and ranking code reads or writes are
  kept. An optional field (\<open>f?: T\<close>) or a nullable field (\<open>T | null\<close>) is an
  \<open>option\<close>; \<open>null\<close> and \<open>undefined\<close> are both \<open>None\<close>, since the code only ever
  tests them for truthiness. Numbers read from the feed are \<open>real\<close>; the score, whose
  values are \<open>Infinity\<close> and small integers, is an \<open>enat\<close>. Field names that clash
  between interfaces, or with a keyword, carry a prefix.
\<close>

record EnlilImpact =
  location :: string
  arrivalTime :: string
  isGlancingBlow :: bool

record EnlilSimulation =
  estimatedShockArrivalTime :: "string option"
  estimatedDuration :: "real option"
  isEarthGB :: "bool option"
  impactList :: "EnlilImpact list option"

record CMEAnalysis =
  halfAngle :: real
  speed :: real
  an_type :: string
  isMostAccurate :: bool
  an_note :: "string option"
  enlilList :: "EnlilSimulation list option"

record LinkedEvent =
  le_activityID :: string

record CME =
  activityID :: string
  startTime :: string
  sourceLocation :: string
  cme_note :: string
  link :: string
  linkedEvents :: "LinkedEvent list option"
  cmeAnalyses :: "CMEAnalysis list option"

record EnhancedCME = CME +
  earthImpactScore :: "enat option"
  displayAnalysisSpeed :: "real option"
  displayAnalysisHalfAngle :: "real option"
  displayAnalysisType :: "string option"
  displayAnalysisNote :: "string option"
  displayEnlilArrivalTime :: "string option"
  displayEnlilDuration :: "real option"
  displayEnlilImpactLocations :: "string list option"
  isPotentiallyEarthDirected :: "bool option"

record AssociatedCMEInfo =
  info_activityID :: string
  info_startTime :: "string option"
  info_note :: "string option"
  info_link :: "string option"
  info_earthImpactScore :: "enat option"

record SolarFlare =
  flrID :: string
  beginTime :: string
  fl_linkedEvents :: "LinkedEvent list option"
  associatedCMEs :: "AssociatedCMEInfo list option"

record InterplanetaryShock =
  ipsID :: string
  eventTime :: string
  ips_linkedEvents :: "LinkedEvent list option"
  associatedCMESpeed :: "real option"
  associatedCMEStartTime :: "string option"
  associatedCMELink :: "string option"
  associatedCMEActivityID :: "string option"

text \<open>The only failure the code can raise by itself: reading a property of \<open>undefined\<close>.\<close>

datatype error = TypeError

section \<open>JavaScript primitives used by Dashboard.tsx\<close>

text \<open>\<open>String.prototype.toLowerCase\<close>, on the ASCII letters (no other character lowers to
  a letter of \<open>earth\<close>).\<close>

definition toLowerChar :: "char \<Rightarrow> char" where
  "toLowerChar c =
     (case map_of (zip ''ABCDEFGHIJKLMNOPQRSTUVWXYZ'' ''abcdefghijklmnopqrstuvwxyz'') c of
        Some l \<Rightarrow> l
      | None \<Rightarrow> c)"

definition toLowerCase :: "string \<Rightarrow> string" where
  "toLowerCase s = map toLowerChar s"

text \<open>\<open>String.prototype.includes\<close>: the pattern occurs at some position.\<close>

fun includesStr :: "string \<Rightarrow> string \<Rightarrow> bool" where
  "includesStr [] p = (p = [])"
| "includesStr (c # cs) p = (take (length p) (c # cs) = p \<or> includesStr cs p)"

text \<open>Truthiness of a \<open>string | null | undefined\<close>: the empty string is falsy.\<close>

definition truthyStr :: "string option \<Rightarrow> bool" where
  "truthyStr s = (case s of None \<Rightarrow> False | Some t \<Rightarrow> t \<noteq> [])"

text \<open>\<open>xs?.[0]\<close>: the first element, \<open>undefined\<close> on an empty or absent array.\<close>

definition first :: "'a list option \<Rightarrow> 'a option" where
  "first xs = (case xs of None \<Rightarrow> None | Some [] \<Rightarrow> None | Some (x # _) \<Rightarrow> Some x)"

text \<open>\<open>xs && xs.length > 0\<close>.\<close>

definition nonEmpty :: "'a list option \<Rightarrow> bool" where
  "nonEmpty xs = (case xs of None \<Rightarrow> False | Some l \<Rightarrow> length l > 0)"

text \<open>\<open>s! > n\<close> on an optional score: \<open>undefined > n\<close> is false.\<close>

definition scoreGt :: "enat option \<Rightarrow> enat \<Rightarrow> bool" where
  "scoreGt s n = (case s of None \<Rightarrow> False | Some v \<Rightarrow> v > n)"

section \<open>CME enrichment (Dashboard.tsx, isPotentiallyEarthRelevant and enhanceCMEData)\<close>

text \<open>\<open>note && note.toLowerCase().includes("earth")\<close>.\<close>

definition mentionsEarth :: "string option \<Rightarrow> bool" where
  "mentionsEarth n = (truthyStr n \<and> (case n of None \<Rightarrow> False
     | Some s \<Rightarrow> includesStr (toLowerCase s) ''earth''))"

definition isPotentiallyEarthRelevant :: "'a CME_scheme \<Rightarrow> bool" where
  "isPotentiallyEarthRelevant cme =
     (case cmeAnalyses cme of
        None \<Rightarrow> False
      | Some as \<Rightarrow>
          if length as = 0 then False
          else list_ex (\<lambda>analysis. isMostAccurate analysis
                 \<or> nonEmpty (enlilList analysis)
                 \<or> mentionsEarth (an_note analysis)) as)"

text \<open>The filter predicate of \<open>earthEnlilSimulations\<close>.\<close>

definition isEarthSimulation :: "EnlilSimulation \<Rightarrow> bool" where
  "isEarthSimulation enlil =
     (isEarthGB enlil = Some True
      \<or> (case impactList enlil of None \<Rightarrow> False
          | Some il \<Rightarrow> list_ex (\<lambda>imp. location imp = ''Earth'') il))"

text \<open>\<open>{ ...cme, earthImpactScore: Infinity }\<close>: every other added field is absent.\<close>

definition spreadCME :: "CME \<Rightarrow> EnhancedCME" where
  "spreadCME cme =
     \<lparr> activityID = activityID cme, startTime = startTime cme,
       sourceLocation = sourceLocation cme, cme_note = cme_note cme, link = link cme,
       linkedEvents = linkedEvents cme, cmeAnalyses = cmeAnalyses cme,
       earthImpactScore = Some \<infinity>,
       displayAnalysisSpeed = None, displayAnalysisHalfAngle = None,
       displayAnalysisType = None, displayAnalysisNote = None,
       displayEnlilArrivalTime = None, displayEnlilDuration = None,
       displayEnlilImpactLocations = None, isPotentiallyEarthDirected = None \<rparr>"

text \<open>\<open>cme.cmeAnalyses?.find(a => a.isMostAccurate) || cme.cmeAnalyses?.[0]\<close>.\<close>

definition relevantAnalysisOf :: "'a CME_scheme \<Rightarrow> CMEAnalysis option" where
  "relevantAnalysisOf cme =
     (let mostAccurateAnalysis =
            (case cmeAnalyses cme of None \<Rightarrow> None | Some as \<Rightarrow> find isMostAccurate as)
      in case mostAccurateAnalysis of
           Some a \<Rightarrow> Some a
         | None \<Rightarrow> first (cmeAnalyses cme))"

text \<open>\<open>relevantAnalysis.enlilList?.filter(...)?.[0]\<close>.\<close>

definition firstEarthEnlilOf :: "CMEAnalysis \<Rightarrow> EnlilSimulation option" where
  "firstEarthEnlilOf relevantAnalysis =
     (let earthEnlilSimulations = map_option (filter isEarthSimulation) (enlilList relevantAnalysis)
      in first earthEnlilSimulations)"

text \<open>The branch taken when a first Earth simulation exists (lines 123 to 131).\<close>

definition applyEarthEnlil :: "EnlilSimulation \<Rightarrow> EnhancedCME \<Rightarrow> EnhancedCME" where
  "applyEarthEnlil firstEarthEnlil enhanced =
     (let e1 = enhanced\<lparr> displayEnlilArrivalTime := estimatedShockArrivalTime firstEarthEnlil \<rparr>;
          e2 = e1\<lparr> displayEnlilDuration := estimatedDuration firstEarthEnlil \<rparr>;
          e3 = e2\<lparr> displayEnlilImpactLocations :=
                 Some (case impactList firstEarthEnlil of
                         Some il \<Rightarrow> map location il
                       | None \<Rightarrow> if isEarthGB firstEarthEnlil = Some True
                                 then [''Earth Geospace''] else []) \<rparr>
      in if truthyStr (estimatedShockArrivalTime firstEarthEnlil)
         then e3\<lparr> earthImpactScore := Some 1 \<rparr>
         else e3\<lparr> earthImpactScore := Some 2 \<rparr>)"

text \<open>The branch taken when the note mentions Earth (lines 133 to 137). The read
  \<open>anyEnlilWithImpact.impactList![0].arrivalTime\<close> raises when the list is absent or
  empty.\<close>

definition applyEarthNote :: "CMEAnalysis \<Rightarrow> EnhancedCME \<Rightarrow> error + EnhancedCME" where
  "applyEarthNote relevantAnalysis enhanced =
     (let anyEnlilWithImpact =
            (case enlilList relevantAnalysis of None \<Rightarrow> None
             | Some l \<Rightarrow> find (\<lambda>e. nonEmpty (impactList e)) l);
          r1 = (case anyEnlilWithImpact of
                  None \<Rightarrow> Inr enhanced
                | Some e \<Rightarrow>
                    if scoreGt (earthImpactScore enhanced) 2
                    then (case impactList e of
                            Some (imp # _) \<Rightarrow>
                              Inr (enhanced\<lparr> displayEnlilArrivalTime := Some (arrivalTime imp) \<rparr>)
                          | _ \<Rightarrow> Inl TypeError)
                    else Inr enhanced)
      in case r1 of
           Inl err \<Rightarrow> Inl err
         | Inr e1 \<Rightarrow>
             Inr (if scoreGt (earthImpactScore e1) 2 then e1\<lparr> earthImpactScore := Some 3 \<rparr>
                  else e1))"

definition enhanceCMEData :: "CME \<Rightarrow> error + EnhancedCME" where
  "enhanceCMEData cme =
     (let enhanced0 = spreadCME cme;
          enhanced = enhanced0\<lparr> isPotentiallyEarthDirected :=
                        Some (isPotentiallyEarthRelevant cme) \<rparr>
      in case relevantAnalysisOf cme of
           None \<Rightarrow> Inr enhanced
         | Some relevantAnalysis \<Rightarrow>
             (let e1 = enhanced\<lparr> displayAnalysisSpeed := Some (speed relevantAnalysis),
                                 displayAnalysisHalfAngle := Some (halfAngle relevantAnalysis),
                                 displayAnalysisType := Some (an_type relevantAnalysis),
                                 displayAnalysisNote := an_note relevantAnalysis \<rparr>
              in case firstEarthEnlilOf relevantAnalysis of
                   Some firstEarthEnlil \<Rightarrow> Inr (applyEarthEnlil firstEarthEnlil e1)
                 | None \<Rightarrow>
                     if mentionsEarth (an_note relevantAnalysis)
                     then applyEarthNote relevantAnalysis e1
                     else if nonEmpty (enlilList relevantAnalysis)
                     then Inr (if scoreGt (earthImpactScore e1) 3
                               then e1\<lparr> earthImpactScore := Some 4 \<rparr> else e1)
                     else Inr e1))"

text \<open>\<open>donkiCMEs.map(enhanceCMEData)\<close>: the first failure aborts the map.\<close>

fun enhanceAll :: "CME list \<Rightarrow> error + EnhancedCME list" where
  "enhanceAll [] = Inr []"
| "enhanceAll (cme # cmes) =
     (case enhanceCMEData cme of
        Inl err \<Rightarrow> Inl err
      | Inr e \<Rightarrow> (case enhanceAll cmes of Inl err \<Rightarrow> Inl err | Inr es \<Rightarrow> Inr (e # es)))"

section \<open>Numbers, dates and Array.prototype.sort\<close>

text \<open>
  The values the comparators compute with: an integer (a score, or the milliseconds of
  \<open>Date.getTime\<close>), \<open>Infinity\<close>, \<open>-Infinity\<close> and \<open>NaN\<close>.
\<close>

datatype jsnum = Fin int | PosInf | NegInf | NaN

text \<open>
  \<open>new Date(s).getTime()\<close> is taken as a parameter: the milliseconds of a timestamp,
  \<open>None\<close> for a string that is no date (\<open>NaN\<close>).
\<close>

type_synonym clock = "string \<Rightarrow> int option"

definition getTime :: "clock \<Rightarrow> string \<Rightarrow> jsnum" where
  "getTime clock s = (case clock s of None \<Rightarrow> NaN | Some ms \<Rightarrow> Fin ms)"

text \<open>\<open>a - b\<close>.\<close>

definition js_sub :: "jsnum \<Rightarrow> jsnum \<Rightarrow> jsnum" where
  "js_sub a b =
     (case a of
        NaN \<Rightarrow> NaN
      | Fin x \<Rightarrow> (case b of NaN \<Rightarrow> NaN | Fin y \<Rightarrow> Fin (x - y)
                   | PosInf \<Rightarrow> NegInf | NegInf \<Rightarrow> PosInf)
      | PosInf \<Rightarrow> (case b of NaN \<Rightarrow> NaN | Fin y \<Rightarrow> PosInf
                   | PosInf \<Rightarrow> NaN | NegInf \<Rightarrow> PosInf)
      | NegInf \<Rightarrow> (case b of NaN \<Rightarrow> NaN | Fin y \<Rightarrow> NegInf
                   | PosInf \<Rightarrow> NegInf | NegInf \<Rightarrow> NaN))"

text \<open>\<open>a !== b\<close> on numbers: \<open>NaN\<close> differs from everything, itself included.\<close>

definition js_neq :: "jsnum \<Rightarrow> jsnum \<Rightarrow> bool" where
  "js_neq a b = (a = NaN \<or> b = NaN \<or> a \<noteq> b)"

text \<open>\<open>a < b\<close> and \<open>a <= b\<close> on numbers: false as soon as one side is \<open>NaN\<close>.\<close>

definition js_less :: "jsnum \<Rightarrow> jsnum \<Rightarrow> bool" where
  "js_less a b =
     (case a of
        NaN \<Rightarrow> False
      | Fin x \<Rightarrow> (case b of Fin y \<Rightarrow> x < y | PosInf \<Rightarrow> True | _ \<Rightarrow> False)
      | PosInf \<Rightarrow> False
      | NegInf \<Rightarrow> (case b of Fin y \<Rightarrow> True | PosInf \<Rightarrow> True | _ \<Rightarrow> False))"

definition js_le :: "jsnum \<Rightarrow> jsnum \<Rightarrow> bool" where
  "js_le a b = (js_less a b \<or> (a = b \<and> a \<noteq> NaN))"

text \<open>\<open>s || Infinity\<close> on an optional score: \<open>undefined\<close> and \<open>0\<close> are falsy.\<close>

definition orInfinity :: "enat option \<Rightarrow> enat" where
  "orInfinity s = (case s of None \<Rightarrow> \<infinity> | Some v \<Rightarrow> if v = 0 then \<infinity> else v)"

definition numOf :: "enat \<Rightarrow> jsnum" where
  "numOf v = (case v of enat n \<Rightarrow> Fin (int n) | \<infinity> \<Rightarrow> PosInf)"

text \<open>
  \<open>Array.prototype.sort(cmp)\<close> is stable, reads a \<open>NaN\<close> result of the comparator as
  \<open>0\<close>, and leaves \<open>a\<close> before \<open>b\<close> unless \<open>cmp(a, b) > 0\<close>. When the comparator is a
  total preorder on the elements, the result is the one stable sorted arrangement, which
  insertion from the right computes: \<open>sortJS\<close> stands for the built-in on such inputs
  only, and on two elements that compare as \<open>0\<close> in both directions, which every stable
  sort leaves as they are. On longer inputs with an inconsistent comparator (a \<open>NaN\<close>
  from a timestamp that is no date) the language leaves the order to the engine, and
  \<open>sortJS\<close> says nothing about the engine's result; that a result is a permutation of
  the input holds for every comparator.
\<close>

definition keepsOrder :: "jsnum \<Rightarrow> bool" where
  "keepsOrder v = (case v of Fin n \<Rightarrow> n \<le> 0 | PosInf \<Rightarrow> False | NegInf \<Rightarrow> True | NaN \<Rightarrow> True)"

fun insertSorted :: "('a \<Rightarrow> 'a \<Rightarrow> jsnum) \<Rightarrow> 'a \<Rightarrow> 'a list \<Rightarrow> 'a list" where
  "insertSorted cmp x [] = [x]"
| "insertSorted cmp x (y # ys) =
     (if keepsOrder (cmp x y) then x # y # ys else y # insertSorted cmp x ys)"

fun sortJS :: "('a \<Rightarrow> 'a \<Rightarrow> jsnum) \<Rightarrow> 'a list \<Rightarrow> 'a list" where
  "sortJS cmp [] = []"
| "sortJS cmp (x # xs) = insertSorted cmp x (sortJS cmp xs)"

section \<open>Ranking and partition (Dashboard.tsx, earthDirectedCMEs and otherCMEs)\<close>

text \<open>\<open>a.displayEnlilArrivalTime ? new Date(a.displayEnlilArrivalTime).getTime() : Infinity\<close>.\<close>

definition arrivalKey :: "clock \<Rightarrow> EnhancedCME \<Rightarrow> jsnum" where
  "arrivalKey clock a =
     (case displayEnlilArrivalTime a of
        None \<Rightarrow> PosInf
      | Some t \<Rightarrow> if t = [] then PosInf else getTime clock t)"

text \<open>The comparator passed to \<open>sort\<close> (lines 274 to 284).\<close>

definition compareCME :: "clock \<Rightarrow> EnhancedCME \<Rightarrow> EnhancedCME \<Rightarrow> jsnum" where
  "compareCME clock a b =
     (if earthImpactScore a \<noteq> earthImpactScore b
      then js_sub (numOf (orInfinity (earthImpactScore a)))
                  (numOf (orInfinity (earthImpactScore b)))
      else
        (let timeA = arrivalKey clock a; timeB = arrivalKey clock b
         in if earthImpactScore a = Some 1 \<and> earthImpactScore b = Some 1 \<and> js_neq timeA timeB
            then js_sub timeA timeB
            else js_sub (getTime clock (startTime b)) (getTime clock (startTime a))))"

definition earthDirectedCMEs :: "clock \<Rightarrow> EnhancedCME list \<Rightarrow> EnhancedCME list" where
  "earthDirectedCMEs clock processedCMEs =
     sortJS (compareCME clock)
       (filter (\<lambda>cme. orInfinity (earthImpactScore cme) \<le> 3) processedCMEs)"

definition otherCMEs :: "clock \<Rightarrow> EnhancedCME list \<Rightarrow> EnhancedCME list" where
  "otherCMEs clock processedCMEs =
     filter (\<lambda>cme. find (\<lambda>edCME. activityID edCME = activityID cme)
                     (earthDirectedCMEs clock processedCMEs) = None)
            processedCMEs"

section \<open>Correlation (Dashboard.tsx, loadFlareAndCorrelateData and loadIPSAndCorrelateData)\<close>

text \<open>\<open>enhancedCmes.forEach(cme => cmeMap.set(cme.activityID, cme))\<close>: a later entry
  replaces an earlier one with the same key.\<close>

definition cmeMapOf :: "EnhancedCME list \<Rightarrow> (string \<rightharpoonup> EnhancedCME)" where
  "cmeMapOf enhancedCmes = foldl (\<lambda>m cme. m(activityID cme \<mapsto> cme)) Map.empty enhancedCmes"

text \<open>The object literal pushed for a linked CME (lines 181 to 187).\<close>

definition toAssociatedCMEInfo :: "EnhancedCME \<Rightarrow> AssociatedCMEInfo" where
  "toAssociatedCMEInfo linkedEnhancedCME =
     \<lparr> info_activityID = activityID linkedEnhancedCME,
       info_startTime = Some (startTime linkedEnhancedCME),
       info_note = Some (cme_note linkedEnhancedCME),
       info_link = Some (link linkedEnhancedCME),
       info_earthImpactScore = earthImpactScore linkedEnhancedCME \<rparr>"

text \<open>\<open>flare.linkedEvents.forEach\<close>, pushing onto \<open>linkedCMEInfos\<close>.\<close>

fun collectLinkedCMEInfos ::
  "(string \<rightharpoonup> EnhancedCME) \<Rightarrow> LinkedEvent list \<Rightarrow> AssociatedCMEInfo list
     \<Rightarrow> AssociatedCMEInfo list" where
  "collectLinkedCMEInfos cmeMap [] linkedCMEInfos = linkedCMEInfos"
| "collectLinkedCMEInfos cmeMap (le # les) linkedCMEInfos =
     (case cmeMap (le_activityID le) of
        Some linkedEnhancedCME \<Rightarrow>
          collectLinkedCMEInfos cmeMap les
            (linkedCMEInfos @ [toAssociatedCMEInfo linkedEnhancedCME])
      | None \<Rightarrow> collectLinkedCMEInfos cmeMap les linkedCMEInfos)"

definition correlateFlare :: "(string \<rightharpoonup> EnhancedCME) \<Rightarrow> SolarFlare \<Rightarrow> SolarFlare" where
  "correlateFlare cmeMap flare =
     (let linkedCMEInfos =
            (case fl_linkedEvents flare of
               None \<Rightarrow> []
             | Some les \<Rightarrow> collectLinkedCMEInfos cmeMap les [])
      in flare\<lparr> associatedCMEs :=
                  (if length linkedCMEInfos > 0 then Some linkedCMEInfos else None) \<rparr>)"

definition correlateFlares :: "EnhancedCME list \<Rightarrow> SolarFlare list \<Rightarrow> SolarFlare list" where
  "correlateFlares enhancedCmes solarFlares =
     map (correlateFlare (cmeMapOf enhancedCmes)) solarFlares"

text \<open>The \<open>for ... of\<close> loop over a shock's linked events, left by \<open>break\<close> at the first
  identifier the map knows.\<close>

fun firstLinkedCME :: "(string \<rightharpoonup> EnhancedCME) \<Rightarrow> LinkedEvent list \<Rightarrow> EnhancedCME option" where
  "firstLinkedCME cmeMap [] = None"
| "firstLinkedCME cmeMap (le # les) =
     (case cmeMap (le_activityID le) of
        Some linkedCME \<Rightarrow> Some linkedCME
      | None \<Rightarrow> firstLinkedCME cmeMap les)"

text \<open>\<open>x || undefined\<close> on an optional number: \<open>0\<close> is falsy.\<close>

definition orUndefined :: "real option \<Rightarrow> real option" where
  "orUndefined x = (case x of None \<Rightarrow> None | Some v \<Rightarrow> if v = 0 then None else Some v)"

definition correlateIPS ::
  "(string \<rightharpoonup> EnhancedCME) \<Rightarrow> InterplanetaryShock \<Rightarrow> InterplanetaryShock" where
  "correlateIPS cmeMap ips =
     (let found = (case ips_linkedEvents ips of
                     None \<Rightarrow> None
                   | Some les \<Rightarrow> firstLinkedCME cmeMap les)
      in case found of
           None \<Rightarrow>
             ips\<lparr> associatedCMESpeed := None, associatedCMEStartTime := None,
                  associatedCMELink := None, associatedCMEActivityID := None \<rparr>
         | Some linkedCME \<Rightarrow>
             ips\<lparr> associatedCMESpeed := orUndefined (displayAnalysisSpeed linkedCME),
                  associatedCMEStartTime := Some (startTime linkedCME),
                  associatedCMELink := Some (link linkedCME),
                  associatedCMEActivityID := Some (activityID linkedCME) \<rparr>)"

definition correlateIPSEvents ::
  "EnhancedCME list \<Rightarrow> InterplanetaryShock list \<Rightarrow> InterplanetaryShock list" where
  "correlateIPSEvents enhancedCmes ipsEvents =
     map (correlateIPS (cmeMapOf enhancedCmes)) ipsEvents"

section \<open>Correlation over a store of objects\<close>

text \<open>
  Whether correlation changes an enhanced CME is a question about objects, so the same
  code is also read over a store: a list of objects addressed by position, with a write
  operation that replaces the object at any address. The enhanced CMEs, the flares and
  the shocks are objects of the store; so are the \<open>Map\<close> built by \<open>cmeMap.set\<close>, whose
  entries are references to the CME objects, and the array \<open>linkedCMEInfos\<close> filled by
  \<open>push\<close>. An object literal allocates. A reference held by a running program always
  designates a live object of the expected kind; the other cases are given a value only
  to keep the functions total.
\<close>

type_synonym ref = nat

datatype obj =
    CmeObj EnhancedCME
  | FlareObj SolarFlare
  | ShockObj InterplanetaryShock
  | CmeMap "string \<rightharpoonup> ref"
  | InfoArray "AssociatedCMEInfo list"

type_synonym store = "obj list"

definition alloc :: "store \<Rightarrow> obj \<Rightarrow> store \<times> ref" where
  "alloc h v = (h @ [v], length h)"

text \<open>Replacing the object at an address: what an assignment to a field, \<open>Map.set\<close> and
  \<open>Array.push\<close> do to the object they are applied to.\<close>

definition writeObj :: "store \<Rightarrow> ref \<Rightarrow> obj \<Rightarrow> store" where
  "writeObj h r v = h[r := v]"

definition readCME :: "store \<Rightarrow> ref \<Rightarrow> EnhancedCME option" where
  "readCME h r =
     (if r < length h then (case h ! r of CmeObj cme \<Rightarrow> Some cme | _ \<Rightarrow> None) else None)"

definition readFlare :: "store \<Rightarrow> ref \<Rightarrow> SolarFlare option" where
  "readFlare h r =
     (if r < length h then (case h ! r of FlareObj flare \<Rightarrow> Some flare | _ \<Rightarrow> None) else None)"

definition readShock :: "store \<Rightarrow> ref \<Rightarrow> InterplanetaryShock option" where
  "readShock h r =
     (if r < length h then (case h ! r of ShockObj ips \<Rightarrow> Some ips | _ \<Rightarrow> None) else None)"

definition readInfos :: "store \<Rightarrow> ref \<Rightarrow> AssociatedCMEInfo list" where
  "readInfos h a =
     (if a < length h then (case h ! a of InfoArray infos \<Rightarrow> infos | _ \<Rightarrow> []) else [])"

text \<open>\<open>cmeMap.get(key)\<close>: the reference stored under the key.\<close>

definition mapGet :: "store \<Rightarrow> ref \<Rightarrow> string \<Rightarrow> ref option" where
  "mapGet h cmeMap k =
     (if cmeMap < length h then (case h ! cmeMap of CmeMap f \<Rightarrow> f k | _ \<Rightarrow> None) else None)"

text \<open>\<open>cmeMap.set(key, cme)\<close>: a write to the map object.\<close>

definition mapSet :: "store \<Rightarrow> ref \<Rightarrow> string \<Rightarrow> ref \<Rightarrow> store" where
  "mapSet h cmeMap k r =
     (if cmeMap < length h
      then (case h ! cmeMap of CmeMap f \<Rightarrow> writeObj h cmeMap (CmeMap (f(k \<mapsto> r))) | _ \<Rightarrow> h)
      else h)"

text \<open>\<open>linkedCMEInfos.push(info)\<close>: a write to the array object.\<close>

definition arrayPush :: "store \<Rightarrow> ref \<Rightarrow> AssociatedCMEInfo \<Rightarrow> store" where
  "arrayPush h a info =
     (if a < length h
      then (case h ! a of InfoArray infos \<Rightarrow> writeObj h a (InfoArray (infos @ [info])) | _ \<Rightarrow> h)
      else h)"

text \<open>\<open>enhancedCmes.forEach(cme => cmeMap.set(cme.activityID, cme))\<close> (lines 172 and
  215).\<close>

fun fillCmeMap :: "store \<Rightarrow> ref \<Rightarrow> ref list \<Rightarrow> store" where
  "fillCmeMap h cmeMap [] = h"
| "fillCmeMap h cmeMap (r # rs) =
     (case readCME h r of
        Some cme \<Rightarrow> fillCmeMap (mapSet h cmeMap (activityID cme) r) cmeMap rs
      | None \<Rightarrow> fillCmeMap h cmeMap rs)"

text \<open>\<open>cmeMap.get(le.activityID)\<close> followed by the reads of the fields of the object
  found.\<close>

definition getCME :: "store \<Rightarrow> ref \<Rightarrow> string \<Rightarrow> EnhancedCME option" where
  "getCME h cmeMap k = (case mapGet h cmeMap k of None \<Rightarrow> None | Some r \<Rightarrow> readCME h r)"

text \<open>\<open>flare.linkedEvents.forEach(le => ...)\<close> (lines 178 to 189).\<close>

fun pushLinkedCMEInfos :: "store \<Rightarrow> ref \<Rightarrow> ref \<Rightarrow> LinkedEvent list \<Rightarrow> store" where
  "pushLinkedCMEInfos h cmeMap a [] = h"
| "pushLinkedCMEInfos h cmeMap a (le # les) =
     (case getCME h cmeMap (le_activityID le) of
        Some linkedEnhancedCME \<Rightarrow>
          pushLinkedCMEInfos (arrayPush h a (toAssociatedCMEInfo linkedEnhancedCME)) cmeMap a les
      | None \<Rightarrow> pushLinkedCMEInfos h cmeMap a les)"

text \<open>The callback of \<open>solarFlares.map\<close> (lines 175 to 192): a new array, the pushes, and
  a new flare object. Nothing writes the array once the flare holds it, so the new flare
  is given its contents.\<close>

definition annotateFlare :: "store \<Rightarrow> ref \<Rightarrow> SolarFlare \<Rightarrow> store \<times> ref" where
  "annotateFlare h cmeMap flare =
     (let (h1, a) = alloc h (InfoArray []);
          h2 = (case fl_linkedEvents flare of
                  None \<Rightarrow> h1
                | Some les \<Rightarrow> pushLinkedCMEInfos h1 cmeMap a les);
          linkedCMEInfos = readInfos h2 a
      in alloc h2 (FlareObj (flare\<lparr> associatedCMEs :=
                     (if length linkedCMEInfos > 0 then Some linkedCMEInfos else None) \<rparr>)))"

fun mapFlares :: "store \<Rightarrow> ref \<Rightarrow> ref list \<Rightarrow> store \<times> ref list" where
  "mapFlares h cmeMap [] = (h, [])"
| "mapFlares h cmeMap (fr # frs) =
     (case readFlare h fr of
        None \<Rightarrow> mapFlares h cmeMap frs
      | Some flare \<Rightarrow>
          (let (h1, r1) = annotateFlare h cmeMap flare;
               (h2, rs2) = mapFlares h1 cmeMap frs
           in (h2, r1 # rs2)))"

text \<open>Lines 171 to 192: the map object, its entries, and the annotated flares.\<close>

definition correlateFlaresStore :: "store \<Rightarrow> ref list \<Rightarrow> ref list \<Rightarrow> store \<times> ref list" where
  "correlateFlaresStore h cmeRefs flareRefs =
     (let (h1, cmeMap) = alloc h (CmeMap Map.empty);
          h2 = fillCmeMap h1 cmeMap cmeRefs
      in mapFlares h2 cmeMap flareRefs)"

text \<open>The callback of \<open>ipsEvents.map\<close> (lines 218 to 237): the four results are local
  variables, so the only store operation is the new shock object.\<close>

definition annotateShock :: "store \<Rightarrow> ref \<Rightarrow> InterplanetaryShock \<Rightarrow> store \<times> ref" where
  "annotateShock h cmeMap ips = alloc h (ShockObj (correlateIPS (getCME h cmeMap) ips))"

fun mapShocks :: "store \<Rightarrow> ref \<Rightarrow> ref list \<Rightarrow> store \<times> ref list" where
  "mapShocks h cmeMap [] = (h, [])"
| "mapShocks h cmeMap (sr # srs) =
     (case readShock h sr of
        None \<Rightarrow> mapShocks h cmeMap srs
      | Some ips \<Rightarrow>
          (let (h1, r1) = annotateShock h cmeMap ips;
               (h2, rs2) = mapShocks h1 cmeMap srs
           in (h2, r1 # rs2)))"

text \<open>Lines 214 to 237.\<close>

definition correlateIPSStore :: "store \<Rightarrow> ref list \<Rightarrow> ref list \<Rightarrow> store \<times> ref list" where
  "correlateIPSStore h cmeRefs ipsRefs =
     (let (h1, cmeMap) = alloc h (CmeMap Map.empty);
          h2 = fillCmeMap h1 cmeMap cmeRefs
      in mapShocks h2 cmeMap ipsRefs)"

section \<open>The specification's wording of the rules\<close>

definition analysesOf :: "'a CME_scheme \<Rightarrow> CMEAnalysis list" where
  "analysesOf cme = (case cmeAnalyses cme of None \<Rightarrow> [] | Some as \<Rightarrow> as)"

definition simulationsOf :: "CMEAnalysis \<Rightarrow> EnlilSimulation list" where
  "simulationsOf a = (case enlilList a of None \<Rightarrow> [] | Some l \<Rightarrow> l)"

definition impactsOf :: "EnlilSimulation \<Rightarrow> EnlilImpact list" where
  "impactsOf s = (case impactList s of None \<Rightarrow> [] | Some il \<Rightarrow> il)"

definition linksOfFlare :: "SolarFlare \<Rightarrow> LinkedEvent list" where
  "linksOfFlare flare = (case fl_linkedEvents flare of None \<Rightarrow> [] | Some les \<Rightarrow> les)"

text \<open>Section 4.1, step 2: the first analysis with \<open>isMostAccurate = true\<close>; if none, the
  first analysis in feed order.\<close>

definition specRelevantAnalysis :: "'a CME_scheme \<Rightarrow> CMEAnalysis option" where
  "specRelevantAnalysis cme =
     (case find (\<lambda>a. isMostAccurate a = True) (analysesOf cme) of
        Some a \<Rightarrow> Some a
      | None \<Rightarrow> (case analysesOf cme of [] \<Rightarrow> None | a # _ \<Rightarrow> Some a))"

text \<open>Section 4.1, step 4: \<open>isEarthGeomagnetic = true\<close> or an impact entry located at the
  literal string \<open>Earth\<close>; the primary Earth simulation is the first such simulation.\<close>

definition specEarthFlagged :: "EnlilSimulation \<Rightarrow> bool" where
  "specEarthFlagged s =
     (isEarthGB s = Some True \<or> list_ex (\<lambda>imp. location imp = ''Earth'') (impactsOf s))"

definition specPrimaryEarthSim :: "CMEAnalysis \<Rightarrow> EnlilSimulation option" where
  "specPrimaryEarthSim ra = find specEarthFlagged (simulationsOf ra)"

definition specNoteMentionsEarth :: "CMEAnalysis \<Rightarrow> bool" where
  "specNoteMentionsEarth ra =
     (case an_note ra of None \<Rightarrow> False | Some s \<Rightarrow> includesStr (toLowerCase s) ''earth'')"

text \<open>Section 4.1, step 5, as written: the tier of the first matching rule.\<close>

definition specTier :: "'a CME_scheme \<Rightarrow> enat" where
  "specTier cme =
     (case specRelevantAnalysis cme of
        None \<Rightarrow> \<infinity>
      | Some ra \<Rightarrow>
          (case specPrimaryEarthSim ra of
             Some s \<Rightarrow> if estimatedShockArrivalTime s \<noteq> None then 1 else 2
           | None \<Rightarrow>
               if specNoteMentionsEarth ra
                  \<and> list_ex (\<lambda>s. impactsOf s \<noteq> []) (simulationsOf ra) then 3
               else if simulationsOf ra \<noteq> [] then 4
               else \<infinity>))"

text \<open>The same list with the third rule matching on the note alone.\<close>

definition specTierNoteOnly :: "'a CME_scheme \<Rightarrow> enat" where
  "specTierNoteOnly cme =
     (case specRelevantAnalysis cme of
        None \<Rightarrow> \<infinity>
      | Some ra \<Rightarrow>
          (case specPrimaryEarthSim ra of
             Some s \<Rightarrow> if estimatedShockArrivalTime s \<noteq> None then 1 else 2
           | None \<Rightarrow>
               if specNoteMentionsEarth ra then 3
               else if simulationsOf ra \<noteq> [] then 4
               else \<infinity>))"

text \<open>Property P3, first half: some Earth-flagged simulation of the CME bears a non-null
  arrival time.\<close>

definition hasEarthFlaggedArrival :: "'a CME_scheme \<Rightarrow> bool" where
  "hasEarthFlaggedArrival cme =
     list_ex (\<lambda>a. list_ex (\<lambda>s. specEarthFlagged s \<and> estimatedShockArrivalTime s \<noteq> None)
                     (simulationsOf a))
             (analysesOf cme)"

text \<open>
  Section 4.3 in its own words, over the fields of the records. A timestamp denotes the
  instant the clock gives it; an arrival time is missing when the field is absent.
  \<open>specEarlierArrival\<close>: ascending arrival time, an entry with no arrival time after one
  that has it.
\<close>

definition specEarlierArrival :: "clock \<Rightarrow> string option \<Rightarrow> string option \<Rightarrow> bool" where
  "specEarlierArrival clock x y =
     (case x of
        None \<Rightarrow> False
      | Some tx \<Rightarrow>
          (case y of
             None \<Rightarrow> True
           | Some ty \<Rightarrow>
               (case clock tx of
                  None \<Rightarrow> False
                | Some ix \<Rightarrow> (case clock ty of None \<Rightarrow> False | Some iy \<Rightarrow> ix < iy))))"

text \<open>A tie on the arrival time: both missing, or the same instant.\<close>

definition specSameArrival :: "clock \<Rightarrow> string option \<Rightarrow> string option \<Rightarrow> bool" where
  "specSameArrival clock x y =
     (case x of
        None \<Rightarrow> y = None
      | Some tx \<Rightarrow>
          (case y of
             None \<Rightarrow> False
           | Some ty \<Rightarrow> (case clock tx of None \<Rightarrow> False | Some ix \<Rightarrow> clock ty = Some ix)))"

text \<open>Descending start time: the first start is not earlier than the second.\<close>

definition specNotEarlierStart :: "clock \<Rightarrow> string \<Rightarrow> string \<Rightarrow> bool" where
  "specNotEarlierStart clock sa sb =
     (case clock sa of
        None \<Rightarrow> False
      | Some ia \<Rightarrow> (case clock sb of None \<Rightarrow> False | Some ib \<Rightarrow> ib \<le> ia))"

text \<open>\<open>a\<close> may stand before \<open>b\<close>: ascending score; for two entries both scoring exactly
  1, ascending arrival time; every remaining tie by descending start time.\<close>

definition specRankedBefore :: "clock \<Rightarrow> EnhancedCME \<Rightarrow> EnhancedCME \<Rightarrow> bool" where
  "specRankedBefore clock a b =
     (case earthImpactScore a of
        None \<Rightarrow> False
      | Some sa \<Rightarrow>
          (case earthImpactScore b of
             None \<Rightarrow> False
           | Some sb \<Rightarrow>
               sa < sb
               \<or> (sa = sb
                   \<and> (if sa = 1
                       then specEarlierArrival clock (displayEnlilArrivalTime a)
                              (displayEnlilArrivalTime b)
                            \<or> (specSameArrival clock (displayEnlilArrivalTime a)
                                  (displayEnlilArrivalTime b)
                                \<and> specNotEarlierStart clock (startTime a) (startTime b))
                       else specNotEarlierStart clock (startTime a) (startTime b)))))"

text \<open>The timestamps the order reads are dates: the start time of the record, and, for a
  record scoring 1, its arrival time when there is one (the empty string is no date).\<close>

definition validTimes :: "clock \<Rightarrow> EnhancedCME \<Rightarrow> bool" where
  "validTimes clock c =
     (clock (startTime c) \<noteq> None
      \<and> (earthImpactScore c = Some 1
           \<longrightarrow> (case displayEnlilArrivalTime c of
                  None \<Rightarrow> True
                | Some t \<Rightarrow> t \<noteq> [] \<and> clock t \<noteq> None)))"

text \<open>Vocabulary of the proofs about the comparator, read off lines 275 to 283: the
  order \<open>compareCME\<close> induces, and the entries on which it is a total preorder.\<close>

definition comparatorBefore :: "clock \<Rightarrow> EnhancedCME \<Rightarrow> EnhancedCME \<Rightarrow> bool" where
  "comparatorBefore clock a b =
     (let sa = orInfinity (earthImpactScore a); sb = orInfinity (earthImpactScore b)
      in sa < sb
         \<or> (sa = sb
             \<and> (if sa = 1 \<and> arrivalKey clock a \<noteq> arrivalKey clock b
                 then js_less (arrivalKey clock a) (arrivalKey clock b)
                 else js_le (getTime clock (startTime b)) (getTime clock (startTime a)))))"

definition ranked :: "clock \<Rightarrow> EnhancedCME \<Rightarrow> bool" where
  "ranked clock c = (validTimes clock c \<and> orInfinity (earthImpactScore c) \<le> 3)"

text \<open>Section 4.3, the contract \<open>partition\<close>: both lists at once.\<close>

definition partitionCMEs :: "clock \<Rightarrow> EnhancedCME list \<Rightarrow> EnhancedCME list \<times> EnhancedCME list" where
  "partitionCMEs clock processedCMEs =
     (earthDirectedCMEs clock processedCMEs, otherCMEs clock processedCMEs)"

section \<open>Example records\<close>

definition simEarthArrival :: EnlilSimulation where
  "simEarthArrival =
     \<lparr> estimatedShockArrivalTime = Some ''2024-03-01T12:00Z'', estimatedDuration = Some 12,
       isEarthGB = Some True, impactList = None \<rparr>"

definition simEarthNoArrival :: EnlilSimulation where
  "simEarthNoArrival =
     \<lparr> estimatedShockArrivalTime = None, estimatedDuration = None,
       isEarthGB = Some True, impactList = None \<rparr>"

definition simEarthEmptyArrival :: EnlilSimulation where
  "simEarthEmptyArrival =
     \<lparr> estimatedShockArrivalTime = Some [], estimatedDuration = None,
       isEarthGB = Some True, impactList = None \<rparr>"

definition analysisWith ::
  "bool \<Rightarrow> real \<Rightarrow> string option \<Rightarrow> EnlilSimulation list option \<Rightarrow> CMEAnalysis" where
  "analysisWith accurate v text sims =
     \<lparr> halfAngle = 30, speed = v, an_type = ''S'', isMostAccurate = accurate,
       an_note = text, enlilList = sims \<rparr>"

definition cmeWith :: "string \<Rightarrow> string \<Rightarrow> CMEAnalysis list option \<Rightarrow> CME" where
  "cmeWith ident start as =
     \<lparr> activityID = ident, startTime = start, sourceLocation = ''N10W20'',
       cme_note = ''observed'', link = ''https://example.org/cme'', linkedEvents = None,
       cmeAnalyses = as \<rparr>"

text \<open>Scenario A of the specification, and the enhanced record it yields.\<close>

definition cmeA :: CME where
  "cmeA = cmeWith ''A'' ''2024-02-28T10:00Z''
            (Some [analysisWith True 450 None (Some [simEarthArrival])])"

definition enhancedA :: EnhancedCME where
  "enhancedA =
     \<lparr> activityID = ''A'', startTime = ''2024-02-28T10:00Z'', sourceLocation = ''N10W20'',
       cme_note = ''observed'', link = ''https://example.org/cme'', linkedEvents = None,
       cmeAnalyses = Some [analysisWith True 450 None (Some [simEarthArrival])],
       earthImpactScore = Some 1,
       displayAnalysisSpeed = Some 450, displayAnalysisHalfAngle = Some 30,
       displayAnalysisType = Some ''S'', displayAnalysisNote = None,
       displayEnlilArrivalTime = Some ''2024-03-01T12:00Z'', displayEnlilDuration = Some 12,
       displayEnlilImpactLocations = Some [''Earth Geospace''],
       isPotentiallyEarthDirected = Some True \<rparr>"

text \<open>Scenario B: no \<open>analyses\<close> field.\<close>

definition cmeB :: CME where
  "cmeB = cmeWith ''B'' ''2024-02-27T10:00Z'' None"

definition enhancedB :: EnhancedCME where
  "enhancedB = (spreadCME cmeB)\<lparr> isPotentiallyEarthDirected := Some False \<rparr>"

text \<open>A second record under the identifier of scenario A, without analyses.\<close>

definition cmeADup :: CME where
  "cmeADup = cmeWith ''A'' ''2024-02-26T10:00Z'' None"

definition enhancedADup :: EnhancedCME where
  "enhancedADup = (spreadCME cmeADup)\<lparr> isPotentiallyEarthDirected := Some False \<rparr>"

text \<open>An Earth simulation whose arrival time is the empty string.\<close>

definition cmeEmptyArrival :: CME where
  "cmeEmptyArrival = cmeWith ''E'' ''2024-02-28T10:00Z''
                       (Some [analysisWith True 450 None (Some [simEarthEmptyArrival])])"

text \<open>An Earth simulation with an arrival time behind one without.\<close>

definition cmeLateArrival :: CME where
  "cmeLateArrival = cmeWith ''L'' ''2024-02-28T10:00Z''
                      (Some [analysisWith True 450 None
                               (Some [simEarthNoArrival, simEarthArrival])])"

text \<open>A note that mentions Earth, and no simulation.\<close>

definition cmeNoteOnly :: CME where
  "cmeNoteOnly = cmeWith ''N'' ''2024-02-28T10:00Z''
                   (Some [analysisWith False 450 (Some ''Possible Earth impact'') None])"

text \<open>A most accurate analysis with no simulation and a note that does not mention
  Earth.\<close>

definition cmeAccurateOnly :: CME where
  "cmeAccurateOnly = cmeWith ''M'' ''2024-02-28T10:00Z''
                       (Some [analysisWith True 450 (Some ''faint halo'') None])"

text \<open>An analysis with speed 0, and the enhanced record it yields.\<close>

definition cmeStill :: CME where
  "cmeStill = cmeWith ''Z'' ''2024-02-28T10:00Z'' (Some [analysisWith False 0 None None])"

definition enhancedStill :: EnhancedCME where
  "enhancedStill =
     (spreadCME cmeStill)\<lparr> displayAnalysisSpeed := Some 0, displayAnalysisHalfAngle := Some 30,
                            displayAnalysisType := Some ''S'',
                            isPotentiallyEarthDirected := Some False \<rparr>"

text \<open>Enhanced records for the ranking examples: identifier, start time, score and
  arrival time.\<close>

definition enhancedWith :: "string \<Rightarrow> string \<Rightarrow> enat \<Rightarrow> string option \<Rightarrow> EnhancedCME" where
  "enhancedWith ident start score arrival =
     (spreadCME (cmeWith ident start None))\<lparr> earthImpactScore := Some score,
                                             displayEnlilArrivalTime := arrival \<rparr>"

definition rankTen :: EnhancedCME where
  "rankTen = enhancedWith ''T10'' ''2023-12-30T00:00Z'' 1 (Some ''2024-01-01T10:00Z'')"

definition rankEight :: EnhancedCME where
  "rankEight = enhancedWith ''T08'' ''2023-12-30T00:00Z'' 1 (Some ''2024-01-01T08:00Z'')"

definition rankTwo :: EnhancedCME where
  "rankTwo = enhancedWith ''S2'' ''2023-12-30T00:00Z'' 2 None"

definition rankFour :: EnhancedCME where
  "rankFour = enhancedWith ''S4'' ''2024-01-01T08:00Z'' 4 None"

text \<open>A record scoring 1 without arrival time, a second record scoring 2 with a later
  start, a record scoring 3 whose arrival time is no date, a record whose start time is
  no date, and a record scoring 1 whose arrival time is no date.\<close>

definition rankNoArrival :: EnhancedCME where
  "rankNoArrival = enhancedWith ''T00'' ''2024-01-01T10:00Z'' 1 None"

definition rankTwoLate :: EnhancedCME where
  "rankTwoLate = enhancedWith ''S2L'' ''2024-01-01T08:00Z'' 2 None"

definition rankThree :: EnhancedCME where
  "rankThree = enhancedWith ''S3'' ''2024-01-01T10:00Z'' 3 (Some ''to be determined'')"

definition rankNoDate :: EnhancedCME where
  "rankNoDate = enhancedWith ''G'' ''not a date'' 2 None"

definition rankArrivalNoDate :: EnhancedCME where
  "rankArrivalNoDate = enhancedWith ''U'' ''2024-01-01T08:00Z'' 1 (Some ''to be determined'')"

text \<open>A clock that knows the timestamps of the ranking examples (milliseconds since
  1970-01-01T00:00Z).\<close>

definition demoClock :: clock where
  "demoClock s =
     (if s = ''2024-01-01T08:00Z'' then Some 1704096000000
      else if s = ''2024-01-01T10:00Z'' then Some 1704103200000
      else if s = ''2023-12-30T00:00Z'' then Some 1703894400000
      else None)"

text \<open>A flare and a shock that each reference three events, one of them unknown.\<close>

definition flareF :: SolarFlare where
  "flareF =
     \<lparr> flrID = ''F1'', beginTime = ''2024-02-28T09:00Z'',
       fl_linkedEvents = Some [\<lparr> le_activityID = ''A'' \<rparr>, \<lparr> le_activityID = ''Q'' \<rparr>,
                               \<lparr> le_activityID = ''B'' \<rparr>],
       associatedCMEs = None \<rparr>"

definition shockS :: InterplanetaryShock where
  "shockS =
     \<lparr> ipsID = ''S1'', eventTime = ''2024-03-01T12:30Z'',
       ips_linkedEvents = Some [\<lparr> le_activityID = ''Q'' \<rparr>, \<lparr> le_activityID = ''A'' \<rparr>,
                                \<lparr> le_activityID = ''B'' \<rparr>],
       associatedCMESpeed = None, associatedCMEStartTime = None,
       associatedCMELink = None, associatedCMEActivityID = None \<rparr>"

definition shockStill :: InterplanetaryShock where
  "shockStill =
     \<lparr> ipsID = ''S2'', eventTime = ''2024-03-01T12:30Z'',
       ips_linkedEvents = Some [\<lparr> le_activityID = ''Z'' \<rparr>],
       associatedCMESpeed = None, associatedCMEStartTime = None,
       associatedCMELink = None, associatedCMEActivityID = None \<rparr>"

text \<open>A store holding two enhanced CMEs, the flare and the shock.\<close>

definition demoStore :: store where
  "demoStore = [CmeObj enhancedA, CmeObj enhancedB, FlareObj flareF, ShockObj shockS]"

section \<open>Auxiliary facts: enrichment\<close>

lemma first_filter: "first (Some (filter P xs)) = find P xs"
  by (induction xs) (auto simp: first_def)

lemma includesStr_iff: "includesStr s p \<longleftrightarrow> (\<exists>pre post. s = pre @ p @ post)"
proof (induction s)
  case Nil
  then show ?case by auto
next
  case (Cons c cs)
  have pre: "take (length p) (c # cs) = p \<longleftrightarrow> (\<exists>post. c # cs = p @ post)"
    by (metis append_eq_conv_conj append_take_drop_id)
  have "(\<exists>pre post. c # cs = pre @ p @ post) \<longleftrightarrow>
        (\<exists>post. c # cs = p @ post) \<or> (\<exists>pre post. cs = pre @ p @ post)"
  proof
    assume "\<exists>pre post. c # cs = pre @ p @ post"
    then obtain pre post where e: "c # cs = pre @ p @ post" by blast
    show "(\<exists>post. c # cs = p @ post) \<or> (\<exists>pre post. cs = pre @ p @ post)"
    proof (cases pre)
      case Nil
      with e show ?thesis by auto
    next
      case (Cons d ds)
      with e have "cs = ds @ p @ post" by simp
      then show ?thesis by blast
    qed
  next
    assume "(\<exists>post. c # cs = p @ post) \<or> (\<exists>pre post. cs = pre @ p @ post)"
    then show "\<exists>pre post. c # cs = pre @ p @ post"
    proof
      assume "\<exists>post. c # cs = p @ post"
      then obtain post where "c # cs = [] @ p @ post" by auto
      then show ?thesis by blast
    next
      assume "\<exists>pre post. cs = pre @ p @ post"
      then obtain pre post where "c # cs = (c # pre) @ p @ post" by auto
      then show ?thesis by blast
    qed
  qed
  with Cons pre show ?case by simp
qed

lemma find_nonEmpty_impact:
  "find (\<lambda>e. nonEmpty (impactList e)) l = Some e \<Longrightarrow> \<exists>imp rest. impactList e = Some (imp # rest)"
  by (auto simp: find_Some_iff nonEmpty_def split: option.splits list.splits) (metis list.exhaust list.size(3) less_irrefl)

lemma applyEarthNote_returns:
  "scoreGt (earthImpactScore enh) 2 \<Longrightarrow> \<exists>e. applyEarthNote ra enh = Inr e \<and> earthImpactScore e = Some 3
     \<and> isPotentiallyEarthDirected e = isPotentiallyEarthDirected enh
     \<and> displayEnlilDuration e = displayEnlilDuration enh
     \<and> displayEnlilImpactLocations e = displayEnlilImpactLocations enh"
  by (auto simp: applyEarthNote_def Let_def scoreGt_def split: option.splits list.splits dest!: find_nonEmpty_impact)

lemma enhance_noAnalyses:
  "cmeAnalyses cme = None \<or> cmeAnalyses cme = Some [] \<Longrightarrow>
   enhanceCMEData cme = Inr ((spreadCME cme)\<lparr> isPotentiallyEarthDirected := Some False \<rparr>)"
  by (auto simp: enhanceCMEData_def relevantAnalysisOf_def first_def isPotentiallyEarthRelevant_def Let_def)

lemma scoreGt_spread: "scoreGt (earthImpactScore ((spreadCME cme)\<lparr> isPotentiallyEarthDirected := b \<rparr>)) n \<longleftrightarrow> n \<noteq> \<infinity>"
  by (cases n) (simp_all add: scoreGt_def spreadCME_def)

lemma enhance_returns: "\<exists>e. enhanceCMEData cme = Inr e"
proof (cases "relevantAnalysisOf cme")
  case None
  then show ?thesis by (simp add: enhanceCMEData_def Let_def)
next
  case (Some ra)
  show ?thesis
  proof (cases "firstEarthEnlilOf ra")
    case None
    have "\<exists>e. applyEarthNote ra x = Inr e" if "scoreGt (earthImpactScore x) 2" for x
      using applyEarthNote_returns[OF that] by blast
    then show ?thesis using Some None
      by (simp add: enhanceCMEData_def Let_def scoreGt_def spreadCME_def)
  next
    case (Some s)
    then show ?thesis using \<open>relevantAnalysisOf cme = Some ra\<close>
      by (simp add: enhanceCMEData_def Let_def)
  qed
qed

lemma enhance_flag:
  "enhanceCMEData cme = Inr e \<Longrightarrow> isPotentiallyEarthDirected e = Some (isPotentiallyEarthRelevant cme)"
proof -
  assume r: "enhanceCMEData cme = Inr e"
  have n: "isPotentiallyEarthDirected e' = isPotentiallyEarthDirected x"
    if "applyEarthNote ra x = Inr e'" for ra x e'
    using that
    by (auto simp: applyEarthNote_def Let_def split: option.splits list.splits if_splits)
  show ?thesis using r
    by (auto simp: enhanceCMEData_def Let_def applyEarthEnlil_def
             split: option.splits if_splits dest!: n)
qed

lemma specRelevantAnalysis_eq: "specRelevantAnalysis cme = relevantAnalysisOf cme"
  by (simp add: specRelevantAnalysis_def relevantAnalysisOf_def analysesOf_def first_def
           split: option.splits list.splits)

lemma specEarthFlagged_eq: "specEarthFlagged = isEarthSimulation"
  by (rule ext) (simp add: specEarthFlagged_def isEarthSimulation_def impactsOf_def split: option.splits)

lemma firstEarthEnlilOf_find: "firstEarthEnlilOf ra = find isEarthSimulation (simulationsOf ra)"
proof (cases "enlilList ra")
  case None
  then show ?thesis by (simp add: firstEarthEnlilOf_def simulationsOf_def first_def)
next
  case (Some l)
  then show ?thesis by (simp add: firstEarthEnlilOf_def simulationsOf_def first_filter)
qed

lemma specPrimaryEarthSim_eq: "specPrimaryEarthSim ra = firstEarthEnlilOf ra"
  by (simp add: specPrimaryEarthSim_def specEarthFlagged_eq firstEarthEnlilOf_find)

lemma specNoteMentionsEarth_eq: "specNoteMentionsEarth ra = mentionsEarth (an_note ra)"
  by (auto simp: specNoteMentionsEarth_def mentionsEarth_def truthyStr_def toLowerCase_def
           split: option.splits)

lemma nonEmpty_simulations: "nonEmpty (enlilList a) \<longleftrightarrow> simulationsOf a \<noteq> []"
  by (simp add: nonEmpty_def simulationsOf_def split: option.splits)

lemma enhance_primary:
  assumes "relevantAnalysisOf cme = Some ra" and "firstEarthEnlilOf ra = Some s"
  shows "\<exists>e. enhanceCMEData cme = Inr e
     \<and> earthImpactScore e = Some (if truthyStr (estimatedShockArrivalTime s) then 1 else 2)
     \<and> displayEnlilArrivalTime e = estimatedShockArrivalTime s
     \<and> displayEnlilDuration e = estimatedDuration s
     \<and> displayEnlilImpactLocations e =
          Some (case impactList s of Some il \<Rightarrow> map location il
                | None \<Rightarrow> if isEarthGB s = Some True then [''Earth Geospace''] else [])"
  using assms by (simp add: enhanceCMEData_def Let_def applyEarthEnlil_def)

lemma enhance_score:
  assumes "enhanceCMEData cme = Inr e"
  shows "earthImpactScore e = Some
     (case relevantAnalysisOf cme of
        None \<Rightarrow> \<infinity>
      | Some ra \<Rightarrow>
          (case firstEarthEnlilOf ra of
             Some s \<Rightarrow> if truthyStr (estimatedShockArrivalTime s) then 1 else 2
           | None \<Rightarrow> if mentionsEarth (an_note ra) then 3
                     else if nonEmpty (enlilList ra) then 4 else \<infinity>))"
proof (cases "relevantAnalysisOf cme")
  case None
  with assms show ?thesis by (auto simp: enhanceCMEData_def Let_def spreadCME_def)
next
  case ra: (Some ra)
  show ?thesis
  proof (cases "firstEarthEnlilOf ra")
    case (Some s)
    from enhance_primary[OF ra Some] assms ra Some show ?thesis by auto
  next
    case None
    have n: "earthImpactScore e' = Some 3"
      if "applyEarthNote ra x = Inr e'" "earthImpactScore x = Some \<infinity>" for x e'
    proof -
      from that(2) have "scoreGt (earthImpactScore x) 2" by (simp add: scoreGt_def)
      from applyEarthNote_returns[OF this, of ra] that(1) show ?thesis by auto
    qed
    from assms ra None show ?thesis
      by (auto simp: enhanceCMEData_def Let_def spreadCME_def scoreGt_def
               split: if_splits dest: n)
  qed
qed

lemma firstEarth_sound:
  "firstEarthEnlilOf ra = Some s \<Longrightarrow> impactList s = None \<Longrightarrow> isEarthGB s = Some True"
  by (auto simp: firstEarthEnlilOf_find find_Some_iff isEarthSimulation_def)

section \<open>Auxiliary facts: sorting and ranking\<close>

lemma set_insertSorted: "set (insertSorted cmp x ys) = insert x (set ys)"
  by (induction ys) auto

lemma mset_insertSorted: "mset (insertSorted cmp x ys) = add_mset x (mset ys)"
  by (induction ys) auto

lemma mset_sortJS: "mset (sortJS cmp xs) = mset xs"
  by (induction xs) (auto simp: mset_insertSorted)

lemma set_sortJS: "set (sortJS cmp xs) = set xs"
  by (metis mset_sortJS set_mset_mset)

lemma sorted_insertSorted:
  assumes tot: "\<And>a b. a \<in> S \<Longrightarrow> b \<in> S \<Longrightarrow> keepsOrder (cmp a b) \<or> keepsOrder (cmp b a)"
    and tr: "\<And>a b c. a \<in> S \<Longrightarrow> b \<in> S \<Longrightarrow> c \<in> S \<Longrightarrow> keepsOrder (cmp a b) \<Longrightarrow> keepsOrder (cmp b c) \<Longrightarrow> keepsOrder (cmp a c)"
  shows "x \<in> S \<Longrightarrow> set ys \<subseteq> S \<Longrightarrow> sorted_wrt (\<lambda>a b. keepsOrder (cmp a b)) ys
     \<Longrightarrow> sorted_wrt (\<lambda>a b. keepsOrder (cmp a b)) (insertSorted cmp x ys)"
proof (induction ys)
  case Nil
  then show ?case by simp
next
  case (Cons y ys)
  show ?case
  proof (cases "keepsOrder (cmp x y)")
    case True
    have "keepsOrder (cmp x z)" if "z \<in> set ys" for z
    proof -
      from Cons.prems(3) that have "keepsOrder (cmp y z)" by simp
      with True show ?thesis using tr[of x y z] Cons.prems(1,2) that by auto
    qed
    with True Cons.prems show ?thesis by simp
  next
    case False
    with tot[of x y] Cons.prems have yx: "keepsOrder (cmp y x)" by auto
    from Cons have "sorted_wrt (\<lambda>a b. keepsOrder (cmp a b)) (insertSorted cmp x ys)" by simp
    with False yx Cons.prems show ?thesis by (simp add: set_insertSorted)
  qed
qed

lemma sorted_sortJS:
  assumes tot: "\<And>a b. a \<in> S \<Longrightarrow> b \<in> S \<Longrightarrow> keepsOrder (cmp a b) \<or> keepsOrder (cmp b a)"
    and tr: "\<And>a b c. a \<in> S \<Longrightarrow> b \<in> S \<Longrightarrow> c \<in> S \<Longrightarrow> keepsOrder (cmp a b) \<Longrightarrow> keepsOrder (cmp b c) \<Longrightarrow> keepsOrder (cmp a c)"
  shows "set xs \<subseteq> S \<Longrightarrow> sorted_wrt (\<lambda>a b. keepsOrder (cmp a b)) (sortJS cmp xs)"
proof (induction xs)
  case Nil
  then show ?case by simp
next
  case (Cons x xs)
  then show ?case
    using sorted_insertSorted[of S cmp x "sortJS cmp xs", OF tot tr]
    by (simp add: set_sortJS)
qed

lemma orInfinity_le3: "orInfinity s \<le> 3 \<Longrightarrow> \<exists>n. s = Some (enat n) \<and> 0 < n \<and> n \<le> 3"
  apply (cases s; simp add: orInfinity_def split: if_splits)
  subgoal for v by (cases v) (auto simp: numeral_eq_enat zero_enat_def)
  done

lemma ranked_keys:
  assumes "ranked clock c"
  obtains n st where "earthImpactScore c = Some (enat n)" "0 < n" "n \<le> 3"
    "getTime clock (startTime c) = Fin st"
    "n = 1 \<longrightarrow> arrivalKey clock c = PosInf \<or> (\<exists>t. arrivalKey clock c = Fin t)"
proof -
  from assms obtain n where n: "earthImpactScore c = Some (enat n)" "0 < n" "n \<le> 3"
    using orInfinity_le3 by (auto simp: ranked_def)
  from assms obtain st where st: "getTime clock (startTime c) = Fin st"
    by (auto simp: ranked_def validTimes_def getTime_def)
  from assms n(1)
  have "n = 1 \<longrightarrow> arrivalKey clock c = PosInf \<or> (\<exists>t. arrivalKey clock c = Fin t)"
    by (auto simp: ranked_def validTimes_def arrivalKey_def getTime_def one_enat_def
          split: option.splits)
  with n st that show ?thesis by blast
qed

lemma orInfinity_enat: "0 < n \<Longrightarrow> orInfinity (Some (enat n)) = enat n"
  by (simp add: orInfinity_def zero_enat_def)

lemma numOf_enat: "numOf (enat n) = Fin (int n)"
  by (simp add: numOf_def)

lemma keepsOrder_sub_Fin: "keepsOrder (js_sub (Fin x) (Fin y)) \<longleftrightarrow> x \<le> y"
  by (simp add: keepsOrder_def js_sub_def)

lemma keepsOrder_sub_Inf:
  "keepsOrder (js_sub (Fin x) PosInf)" "\<not> keepsOrder (js_sub PosInf (Fin y))"
  by (simp_all add: keepsOrder_def js_sub_def)

lemma js_less_simps:
  "js_less (Fin x) (Fin y) \<longleftrightarrow> x < y" "js_less (Fin x) PosInf" "\<not> js_less PosInf b"
  by (simp_all add: js_less_def)

lemma js_le_Fin: "js_le (Fin x) (Fin y) \<longleftrightarrow> x \<le> y"
  by (auto simp: js_le_def js_less_def)

lemma js_neq_simps:
  "js_neq (Fin x) (Fin y) \<longleftrightarrow> x \<noteq> y" "js_neq (Fin x) PosInf" "js_neq PosInf (Fin y)"
  "\<not> js_neq PosInf PosInf"
  by (simp_all add: js_neq_def)

lemma ranked_cases:
  assumes "ranked clock a" "ranked clock b"
  obtains na nb sa sb where
    "earthImpactScore a = Some (enat na)" "0 < na"
    "earthImpactScore b = Some (enat nb)" "0 < nb"
    "getTime clock (startTime a) = Fin sa" "getTime clock (startTime b) = Fin sb"
    "na = 1 \<longrightarrow> arrivalKey clock a = PosInf \<or> (\<exists>t. arrivalKey clock a = Fin t)"
    "nb = 1 \<longrightarrow> arrivalKey clock b = PosInf \<or> (\<exists>t. arrivalKey clock b = Fin t)"
proof -
  from assms(1) obtain na sa where a: "earthImpactScore a = Some (enat na)" "0 < na"
    "getTime clock (startTime a) = Fin sa"
    "na = 1 \<longrightarrow> arrivalKey clock a = PosInf \<or> (\<exists>t. arrivalKey clock a = Fin t)"
    by (rule ranked_keys)
  from assms(2) obtain nb sb where b: "earthImpactScore b = Some (enat nb)" "0 < nb"
    "getTime clock (startTime b) = Fin sb"
    "nb = 1 \<longrightarrow> arrivalKey clock b = PosInf \<or> (\<exists>t. arrivalKey clock b = Fin t)"
    by (rule ranked_keys)
  from a b that show ?thesis by blast
qed

lemma compare_ranked:
  assumes "ranked clock a" "ranked clock b"
  shows "keepsOrder (compareCME clock a b) \<longleftrightarrow> comparatorBefore clock a b"
proof -
  from assms obtain na nb sa sb where k:
    "earthImpactScore a = Some (enat na)" "0 < na"
    "earthImpactScore b = Some (enat nb)" "0 < nb"
    "getTime clock (startTime a) = Fin sa" "getTime clock (startTime b) = Fin sb"
    and ca: "na = 1 \<longrightarrow> arrivalKey clock a = PosInf \<or> (\<exists>t. arrivalKey clock a = Fin t)"
    and cb: "nb = 1 \<longrightarrow> arrivalKey clock b = PosInf \<or> (\<exists>t. arrivalKey clock b = Fin t)"
    by (rule ranked_cases)
  show ?thesis
  proof (cases "na = nb")
    case False
    with k show ?thesis
      by (simp add: compareCME_def comparatorBefore_def Let_def orInfinity_enat numOf_enat
            keepsOrder_sub_Fin) linarith
  next
    case True
    show ?thesis
    proof (cases "na = 1")
      case False
      with k True show ?thesis
        by (simp add: compareCME_def comparatorBefore_def Let_def orInfinity_enat one_enat_def
              keepsOrder_sub_Fin js_le_Fin)
    next
      case one: True
      with True ca cb
      have ka: "arrivalKey clock a = PosInf \<or> (\<exists>t. arrivalKey clock a = Fin t)"
        and kb: "arrivalKey clock b = PosInf \<or> (\<exists>t. arrivalKey clock b = Fin t)"
        by simp_all
      from ka kb show ?thesis
      proof (elim disjE exE)
        assume "arrivalKey clock a = PosInf" "arrivalKey clock b = PosInf"
        with k True show ?thesis
          by (simp add: compareCME_def comparatorBefore_def Let_def orInfinity_enat
                keepsOrder_sub_Fin js_le_Fin js_neq_simps)
      next
        fix t assume "arrivalKey clock a = PosInf" "arrivalKey clock b = Fin t"
        with k True show ?thesis
          by (simp add: compareCME_def comparatorBefore_def Let_def orInfinity_enat one_enat_def
                keepsOrder_sub_Fin keepsOrder_sub_Inf js_le_Fin js_neq_simps js_less_simps)
      next
        fix t assume "arrivalKey clock a = Fin t" "arrivalKey clock b = PosInf"
        with k True show ?thesis
          by (simp add: compareCME_def comparatorBefore_def Let_def orInfinity_enat one_enat_def
                keepsOrder_sub_Fin keepsOrder_sub_Inf js_le_Fin js_neq_simps js_less_simps)
      next
        fix t u assume "arrivalKey clock a = Fin t" "arrivalKey clock b = Fin u"
        with k True show ?thesis
          by (simp add: compareCME_def comparatorBefore_def Let_def orInfinity_enat one_enat_def
                keepsOrder_sub_Fin keepsOrder_sub_Inf js_le_Fin js_neq_simps js_less_simps)
             linarith
      qed
    qed
  qed
qed

lemma comparatorBefore_total:
  assumes "ranked clock a" "ranked clock b"
  shows "comparatorBefore clock a b \<or> comparatorBefore clock b a"
proof -
  from assms obtain na nb sa sb where k:
    "earthImpactScore a = Some (enat na)" "0 < na"
    "earthImpactScore b = Some (enat nb)" "0 < nb"
    "getTime clock (startTime a) = Fin sa" "getTime clock (startTime b) = Fin sb"
    and ca: "na = 1 \<longrightarrow> arrivalKey clock a = PosInf \<or> (\<exists>t. arrivalKey clock a = Fin t)"
    and cb: "nb = 1 \<longrightarrow> arrivalKey clock b = PosInf \<or> (\<exists>t. arrivalKey clock b = Fin t)"
    by (rule ranked_cases)
  show ?thesis
  proof (cases "na = 1 \<and> nb = 1")
    case False
    with k show ?thesis
      by (auto simp: comparatorBefore_def Let_def orInfinity_enat js_le_Fin one_enat_def)
  next
    case True
    with ca cb
    have ka: "arrivalKey clock a = PosInf \<or> (\<exists>t. arrivalKey clock a = Fin t)"
      and kb: "arrivalKey clock b = PosInf \<or> (\<exists>t. arrivalKey clock b = Fin t)"
      by simp_all
    from ka kb show ?thesis
    proof (elim disjE exE)
      assume "arrivalKey clock a = PosInf" "arrivalKey clock b = PosInf"
      with k show ?thesis
        by (auto simp: comparatorBefore_def Let_def orInfinity_enat js_le_Fin one_enat_def)
    next
      fix t assume "arrivalKey clock a = PosInf" "arrivalKey clock b = Fin t"
      with k show ?thesis
        by (auto simp: comparatorBefore_def Let_def orInfinity_enat js_le_Fin js_less_simps
              one_enat_def)
    next
      fix t assume "arrivalKey clock a = Fin t" "arrivalKey clock b = PosInf"
      with k show ?thesis
        by (auto simp: comparatorBefore_def Let_def orInfinity_enat js_le_Fin js_less_simps
              one_enat_def)
    next
      fix t u assume "arrivalKey clock a = Fin t" "arrivalKey clock b = Fin u"
      with k show ?thesis
        by (auto simp: comparatorBefore_def Let_def orInfinity_enat js_le_Fin js_less_simps
              one_enat_def)
    qed
  qed
qed

lemma comparatorBefore_trans:
  assumes "ranked clock a" "ranked clock b" "ranked clock c"
    and ab: "comparatorBefore clock a b" and bc: "comparatorBefore clock b c"
  shows "comparatorBefore clock a c"
proof -
  from assms(1,2) obtain na nb sa sb where k:
    "earthImpactScore a = Some (enat na)" "0 < na"
    "earthImpactScore b = Some (enat nb)" "0 < nb"
    "getTime clock (startTime a) = Fin sa" "getTime clock (startTime b) = Fin sb"
    and ca: "na = 1 \<longrightarrow> arrivalKey clock a = PosInf \<or> (\<exists>t. arrivalKey clock a = Fin t)"
    and cb: "nb = 1 \<longrightarrow> arrivalKey clock b = PosInf \<or> (\<exists>t. arrivalKey clock b = Fin t)"
    by (rule ranked_cases)
  from assms(3) obtain nc sc where c:
    "earthImpactScore c = Some (enat nc)" "0 < nc" "getTime clock (startTime c) = Fin sc"
    and cc: "nc = 1 \<longrightarrow> arrivalKey clock c = PosInf \<or> (\<exists>t. arrivalKey clock c = Fin t)"
    by (rule ranked_keys)
  note defs = comparatorBefore_def Let_def orInfinity_enat js_le_Fin js_less_simps one_enat_def
  show ?thesis
  proof (cases "na = 1 \<and> nb = 1 \<and> nc = 1")
    case False
    with k c ab bc show ?thesis by (auto simp: defs split: if_splits)
  next
    case True
    with ca cb cc
    have ka: "arrivalKey clock a = PosInf \<or> (\<exists>t. arrivalKey clock a = Fin t)"
      and kb: "arrivalKey clock b = PosInf \<or> (\<exists>t. arrivalKey clock b = Fin t)"
      and kc: "arrivalKey clock c = PosInf \<or> (\<exists>t. arrivalKey clock c = Fin t)"
      by simp_all
    from ka kb kc show ?thesis
    proof (elim disjE exE)
      assume "arrivalKey clock a = PosInf" "arrivalKey clock b = PosInf" "arrivalKey clock c = PosInf"
      with k c ab bc show ?thesis by (auto simp: defs split: if_splits)
    next
      fix t assume "arrivalKey clock a = PosInf" "arrivalKey clock b = PosInf" "arrivalKey clock c = Fin t"
      with k c ab bc show ?thesis by (auto simp: defs split: if_splits)
    next
      fix t assume "arrivalKey clock a = PosInf" "arrivalKey clock b = Fin t" "arrivalKey clock c = PosInf"
      with k c ab bc show ?thesis by (auto simp: defs split: if_splits)
    next
      fix t u assume "arrivalKey clock a = PosInf" "arrivalKey clock b = Fin t" "arrivalKey clock c = Fin u"
      with k c ab bc show ?thesis by (auto simp: defs split: if_splits)
    next
      fix t assume "arrivalKey clock a = Fin t" "arrivalKey clock b = PosInf" "arrivalKey clock c = PosInf"
      with k c ab bc show ?thesis by (auto simp: defs split: if_splits)
    next
      fix t u assume "arrivalKey clock a = Fin t" "arrivalKey clock b = PosInf" "arrivalKey clock c = Fin u"
      with k c ab bc show ?thesis by (auto simp: defs split: if_splits)
    next
      fix t u assume "arrivalKey clock a = Fin t" "arrivalKey clock b = Fin u" "arrivalKey clock c = PosInf"
      with k c ab bc show ?thesis by (auto simp: defs split: if_splits)
    next
      fix t u v assume "arrivalKey clock a = Fin t" "arrivalKey clock b = Fin u" "arrivalKey clock c = Fin v"
      with k c ab bc show ?thesis by (auto simp: defs split: if_splits)
    qed
  qed
qed

lemma ranked_shape:
  assumes "ranked clock c"
  obtains n st where "earthImpactScore c = Some (enat n)" "0 < n"
    "clock (startTime c) = Some st"
    "n = 1 \<longrightarrow> (displayEnlilArrivalTime c = None \<and> arrivalKey clock c = PosInf)
       \<or> (\<exists>t i. displayEnlilArrivalTime c = Some t \<and> clock t = Some i
                 \<and> arrivalKey clock c = Fin i)"
proof -
  from assms obtain n where n: "earthImpactScore c = Some (enat n)" "0 < n"
    using orInfinity_le3 by (auto simp: ranked_def)
  from assms obtain st where st: "clock (startTime c) = Some st"
    by (auto simp: ranked_def validTimes_def)
  from assms n(1)
  have "n = 1 \<longrightarrow> (displayEnlilArrivalTime c = None \<and> arrivalKey clock c = PosInf)
       \<or> (\<exists>t i. displayEnlilArrivalTime c = Some t \<and> clock t = Some i
                 \<and> arrivalKey clock c = Fin i)"
    by (cases "displayEnlilArrivalTime c")
       (auto simp: ranked_def validTimes_def arrivalKey_def getTime_def one_enat_def)
  with n st that show ?thesis by blast
qed

lemma comparator_spec:
  assumes "ranked clock a" "ranked clock b"
  shows "comparatorBefore clock a b \<longleftrightarrow> specRankedBefore clock a b"
proof -
  from assms(1) obtain na sa where a: "earthImpactScore a = Some (enat na)" "0 < na"
    "clock (startTime a) = Some sa"
    and ca: "na = 1 \<longrightarrow> (displayEnlilArrivalTime a = None \<and> arrivalKey clock a = PosInf)
     \<or> (\<exists>t i. displayEnlilArrivalTime a = Some t \<and> clock t = Some i
               \<and> arrivalKey clock a = Fin i)"
    by (rule ranked_shape)
  from assms(2) obtain nb sb where b: "earthImpactScore b = Some (enat nb)" "0 < nb"
    "clock (startTime b) = Some sb"
    and cb: "nb = 1 \<longrightarrow> (displayEnlilArrivalTime b = None \<and> arrivalKey clock b = PosInf)
     \<or> (\<exists>t i. displayEnlilArrivalTime b = Some t \<and> clock t = Some i
               \<and> arrivalKey clock b = Fin i)"
    by (rule ranked_shape)
  note defs = comparatorBefore_def specRankedBefore_def specEarlierArrival_def
    specSameArrival_def specNotEarlierStart_def Let_def orInfinity_enat js_le_Fin
    js_less_simps getTime_def one_enat_def
  show ?thesis
  proof (cases "na = 1 \<and> nb = 1")
    case False
    with a b show ?thesis
      by (auto simp: comparatorBefore_def specRankedBefore_def specNotEarlierStart_def Let_def
            orInfinity_enat js_le_Fin getTime_def one_enat_def)
  next
    case True
    with ca cb
    have ka: "(displayEnlilArrivalTime a = None \<and> arrivalKey clock a = PosInf)
       \<or> (\<exists>t i. displayEnlilArrivalTime a = Some t \<and> clock t = Some i
                 \<and> arrivalKey clock a = Fin i)"
      and kb: "(displayEnlilArrivalTime b = None \<and> arrivalKey clock b = PosInf)
       \<or> (\<exists>t i. displayEnlilArrivalTime b = Some t \<and> clock t = Some i
                 \<and> arrivalKey clock b = Fin i)"
      by simp_all
    from ka kb show ?thesis
    proof (elim disjE exE conjE)
      assume "displayEnlilArrivalTime a = None" "arrivalKey clock a = PosInf"
        "displayEnlilArrivalTime b = None" "arrivalKey clock b = PosInf"
      with a b show ?thesis by (simp add: defs)
    next
      fix t i
      assume "displayEnlilArrivalTime a = None" "arrivalKey clock a = PosInf"
        "displayEnlilArrivalTime b = Some t" "clock t = Some i" "arrivalKey clock b = Fin i"
      with a b show ?thesis by (simp add: defs)
    next
      fix t i
      assume "displayEnlilArrivalTime a = Some t" "clock t = Some i" "arrivalKey clock a = Fin i"
        "displayEnlilArrivalTime b = None" "arrivalKey clock b = PosInf"
      with a b show ?thesis by (simp add: defs)
    next
      fix t i u j
      assume "displayEnlilArrivalTime a = Some t" "clock t = Some i" "arrivalKey clock a = Fin i"
        "displayEnlilArrivalTime b = Some u" "clock u = Some j" "arrivalKey clock b = Fin j"
      with a b show ?thesis by (auto simp: defs)
    qed
  qed
qed

lemma earthDirected_sorted:
  assumes "\<forall>c\<in>set (earthDirectedCMEs clock xs). validTimes clock c"
  shows "sorted_wrt (specRankedBefore clock) (earthDirectedCMEs clock xs)"
proof -
  let ?S = "{c. ranked clock c}"
  let ?ys = "filter (\<lambda>cme. orInfinity (earthImpactScore cme) \<le> 3) xs"
  have "set (earthDirectedCMEs clock xs) = set ?ys"
    by (simp add: earthDirectedCMEs_def set_sortJS)
  with assms have sub: "set ?ys \<subseteq> ?S" by (auto simp: ranked_def)
  have s: "sorted_wrt (\<lambda>a b. keepsOrder (compareCME clock a b)) (sortJS (compareCME clock) ?ys)"
  proof (rule sorted_sortJS[where S = ?S])
    fix a b assume "a \<in> ?S" "b \<in> ?S"
    then show "keepsOrder (compareCME clock a b) \<or> keepsOrder (compareCME clock b a)"
      using comparatorBefore_total[of clock a b] by (simp add: compare_ranked)
  next
    fix a b c assume "a \<in> ?S" "b \<in> ?S" "c \<in> ?S"
      "keepsOrder (compareCME clock a b)" "keepsOrder (compareCME clock b c)"
    then show "keepsOrder (compareCME clock a c)"
      using comparatorBefore_trans[of clock a b c] by (simp add: compare_ranked)
  next
    show "set ?ys \<subseteq> ?S" by (rule sub)
  qed
  have "specRankedBefore clock a b"
    if "a \<in> set (sortJS (compareCME clock) ?ys)" "b \<in> set (sortJS (compareCME clock) ?ys)"
      "keepsOrder (compareCME clock a b)" for a b
  proof -
    from that(1,2) sub have r: "ranked clock a" "ranked clock b" by (auto simp: set_sortJS)
    with that(3) have "comparatorBefore clock a b" by (simp add: compare_ranked)
    with r show ?thesis by (simp add: comparator_spec)
  qed
  then have "sorted_wrt (specRankedBefore clock) (sortJS (compareCME clock) ?ys)"
    by (rule sorted_wrt_mono_rel[OF _ s])
  then show ?thesis by (simp add: earthDirectedCMEs_def)
qed

lemma earthDirected_pair:
  assumes "earthImpactScore a = Some 1" "earthImpactScore b = Some 1"
    and "displayEnlilArrivalTime a = Some ta" "displayEnlilArrivalTime b = Some tb"
    and "ta \<noteq> []" "tb \<noteq> []"
    and "clock ta = Some ma" "clock tb = Some mb" "mb < ma"
  shows "earthDirectedCMEs clock [a, b] = [b, a]" "earthDirectedCMEs clock [b, a] = [b, a]"
  using assms
  by (simp_all add: earthDirectedCMEs_def orInfinity_def one_enat_def zero_enat_def numeral_eq_enat
        compareCME_def arrivalKey_def getTime_def js_neq_def js_sub_def keepsOrder_def Let_def)

lemma set_earthDirected:
  "set (earthDirectedCMEs clock xs) = {c \<in> set xs. orInfinity (earthImpactScore c) \<le> 3}"
  by (simp add: earthDirectedCMEs_def set_sortJS)

lemma mset_earthDirected:
  "mset (earthDirectedCMEs clock xs) = mset (filter (\<lambda>c. orInfinity (earthImpactScore c) \<le> 3) xs)"
  by (simp add: earthDirectedCMEs_def mset_sortJS)

lemma otherCMEs_distinct:
  assumes "distinct (map activityID xs)"
  shows "otherCMEs clock xs = filter (\<lambda>c. \<not> orInfinity (earthImpactScore c) \<le> 3) xs"
proof -
  have inj: "inj_on activityID (set xs)" using assms by (simp add: distinct_map)
  have "(find (\<lambda>ed. activityID ed = activityID c) (earthDirectedCMEs clock xs) = None)
        \<longleftrightarrow> \<not> orInfinity (earthImpactScore c) \<le> 3" if "c \<in> set xs" for c
  proof
    assume n: "find (\<lambda>ed. activityID ed = activityID c) (earthDirectedCMEs clock xs) = None"
    show "\<not> orInfinity (earthImpactScore c) \<le> 3"
    proof
      assume "orInfinity (earthImpactScore c) \<le> 3"
      with that have "c \<in> set (earthDirectedCMEs clock xs)" by (simp add: set_earthDirected)
      with n show False by (auto simp: find_None_iff)
    qed
  next
    assume n: "\<not> orInfinity (earthImpactScore c) \<le> 3"
    have "activityID ed \<noteq> activityID c" if ed: "ed \<in> set (earthDirectedCMEs clock xs)" for ed
    proof
      assume "activityID ed = activityID c"
      moreover from ed have "ed \<in> set xs" "orInfinity (earthImpactScore ed) \<le> 3"
        by (simp_all add: set_earthDirected)
      ultimately have "ed = c" using inj \<open>c \<in> set xs\<close> by (auto dest: inj_onD)
      with n \<open>orInfinity (earthImpactScore ed) \<le> 3\<close> show False by simp
    qed
    then show "find (\<lambda>ed. activityID ed = activityID c) (earthDirectedCMEs clock xs) = None"
      by (auto simp: find_None_iff)
  qed
  then show ?thesis unfolding otherCMEs_def by (auto intro: filter_cong)
qed

lemma orInfinity_valid:
  assumes "s \<in> {Some 1, Some 2, Some 3, Some 4, Some \<infinity>}"
  shows "orInfinity s \<le> 3 \<longleftrightarrow> (\<exists>v. s = Some v \<and> v \<le> 3)"
    and "\<not> orInfinity s \<le> 3 \<longleftrightarrow> s = Some 4 \<or> s = Some \<infinity>"
  using assms by (auto simp: orInfinity_def)

section \<open>Auxiliary facts: correlation\<close>

lemma cmeMapOf_snoc: "cmeMapOf (cs @ [c]) = (cmeMapOf cs)(activityID c \<mapsto> c)"
  by (simp add: cmeMapOf_def)

lemma cmeMapOf_last: "cmeMapOf cs k = find (\<lambda>c. activityID c = k) (rev cs)"
proof (induction cs rule: rev_induct)
  case Nil
  then show ?case by (simp add: cmeMapOf_def)
next
  case (snoc c cs)
  then show ?case by (simp add: cmeMapOf_snoc)
qed

lemma collect_acc:
  "collectLinkedCMEInfos m les acc =
   acc @ map toAssociatedCMEInfo (List.map_filter (\<lambda>le. m (le_activityID le)) les)"
  by (induction les arbitrary: acc) (auto simp: List.map_filter_simps split: option.splits)

lemma correlateFlare_assoc:
  "associatedCMEs (correlateFlare m flare) =
     (let resolved = List.map_filter (\<lambda>le. m (le_activityID le)) (linksOfFlare flare)
      in if resolved = [] then None else Some (map toAssociatedCMEInfo resolved))"
  by (simp add: correlateFlare_def linksOfFlare_def collect_acc Let_def List.map_filter_simps
           split: option.splits)

lemma correlateFlare_frame:
  "flrID (correlateFlare m flare) = flrID flare"
  "beginTime (correlateFlare m flare) = beginTime flare"
  "fl_linkedEvents (correlateFlare m flare) = fl_linkedEvents flare"
  by (simp_all add: correlateFlare_def Let_def)

lemma map_filter_the:
  "List.map_filter f xs = map (\<lambda>x. the (f x)) (filter (\<lambda>x. f x \<noteq> None) xs)"
  by (induction xs) (auto simp: List.map_filter_simps split: option.splits)

lemma firstLinkedCME_append:
  "\<forall>l\<in>set pre. m (le_activityID l) = None \<Longrightarrow>
   firstLinkedCME m (pre @ rest) = firstLinkedCME m rest"
  by (induction pre) auto

lemma firstLinkedCME_None:
  "firstLinkedCME m les = None \<longleftrightarrow> (\<forall>l\<in>set les. m (le_activityID l) = None)"
  by (induction les) (auto split: option.splits)

lemma correlateIPS_first:
  assumes "ips_linkedEvents ips = Some (pre @ le # post)"
    and "\<forall>l\<in>set pre. m (le_activityID l) = None"
    and "m (le_activityID le) = Some cme"
  shows "correlateIPS m ips =
     ips\<lparr> associatedCMESpeed := orUndefined (displayAnalysisSpeed cme),
          associatedCMEStartTime := Some (startTime cme),
          associatedCMELink := Some (link cme),
          associatedCMEActivityID := Some (activityID cme) \<rparr>"
  using assms by (simp add: correlateIPS_def firstLinkedCME_append)

lemma correlateIPS_none:
  assumes "ips_linkedEvents ips = None \<or> (\<exists>les. ips_linkedEvents ips = Some les \<and> (\<forall>l\<in>set les. m (le_activityID l) = None))"
  shows "correlateIPS m ips =
     ips\<lparr> associatedCMESpeed := None, associatedCMEStartTime := None,
          associatedCMELink := None, associatedCMEActivityID := None \<rparr>"
  using assms by (auto simp: correlateIPS_def firstLinkedCME_None[THEN iffD2])

section \<open>Auxiliary facts: writes and allocations in the store\<close>

lemma length_mapSet: "length (mapSet h m k r) = length h"
  by (simp add: mapSet_def writeObj_def split: obj.splits)

lemma mapSet_other: "x \<noteq> m \<Longrightarrow> mapSet h m k r ! x = h ! x"
  by (simp add: mapSet_def writeObj_def split: obj.splits)

lemma readCME_mapSet: "readCME (mapSet h m k r) = readCME h"
proof (rule ext)
  fix x
  show "readCME (mapSet h m k r) x = readCME h x"
    by (cases "x = m")
       (auto simp: readCME_def mapSet_def writeObj_def split: obj.splits)
qed

lemma isMap_mapSet:
  "m < length h \<Longrightarrow> h ! m = CmeMap f \<Longrightarrow> mapSet h m k r ! m = CmeMap (f(k \<mapsto> r))"
  by (simp add: mapSet_def writeObj_def)

lemma length_arrayPush: "length (arrayPush h a i) = length h"
  by (simp add: arrayPush_def writeObj_def split: obj.splits)

lemma arrayPush_other: "x \<noteq> a \<Longrightarrow> arrayPush h a i ! x = h ! x"
  by (simp add: arrayPush_def writeObj_def split: obj.splits)

lemma readCME_arrayPush: "readCME (arrayPush h a i) = readCME h"
proof (rule ext)
  fix x
  show "readCME (arrayPush h a i) x = readCME h x"
    by (cases "x = a")
       (auto simp: readCME_def arrayPush_def writeObj_def split: obj.splits)
qed

lemma mapGet_arrayPush: "mapGet (arrayPush h a i) m = mapGet h m"
proof (rule ext)
  fix k
  show "mapGet (arrayPush h a i) m k = mapGet h m k"
    by (cases "m = a")
       (auto simp: mapGet_def arrayPush_def writeObj_def split: obj.splits)
qed

lemma getCME_arrayPush: "getCME (arrayPush h a i) m = getCME h m"
  by (rule ext) (simp add: getCME_def mapGet_arrayPush readCME_arrayPush split: option.splits)

lemma readInfos_arrayPush:
  "a < length h \<Longrightarrow> h ! a = InfoArray xs \<Longrightarrow>
   arrayPush h a i ! a = InfoArray (xs @ [i])"
  by (simp add: arrayPush_def writeObj_def)

lemma readCME_snoc: "(\<forall>c. v \<noteq> CmeObj c) \<Longrightarrow> readCME (h @ [v]) = readCME h"
proof (rule ext)
  fix x assume n: "\<forall>c. v \<noteq> CmeObj c"
  show "readCME (h @ [v]) x = readCME h x"
  proof (cases "x < length h")
    case True
    then show ?thesis by (simp add: readCME_def nth_append)
  next
    case False
    with n show ?thesis by (cases v) (auto simp: readCME_def nth_append)
  qed
qed

lemma mapGet_snoc: "m < length h \<Longrightarrow> mapGet (h @ [v]) m = mapGet h m"
  by (rule ext) (simp add: mapGet_def nth_append)

lemma getCME_snoc:
  "m < length h \<Longrightarrow> (\<forall>c. v \<noteq> CmeObj c) \<Longrightarrow> getCME (h @ [v]) m = getCME h m"
  by (rule ext) (simp add: getCME_def mapGet_snoc readCME_snoc split: option.splits)

text \<open>The loop that fills the map writes the map object only.\<close>

lemma length_fillCmeMap: "length (fillCmeMap h m cs) = length h"
  by (induction cs arbitrary: h) (auto simp: length_mapSet split: option.splits)

lemma fillCmeMap_other: "x \<noteq> m \<Longrightarrow> fillCmeMap h m cs ! x = h ! x"
  by (induction cs arbitrary: h) (auto simp: mapSet_other split: option.splits)

lemma readCME_fillCmeMap: "readCME (fillCmeMap h m cs) = readCME h"
  by (induction cs arbitrary: h) (auto simp: readCME_mapSet split: option.splits)

text \<open>The loop over the linked events writes the array object only.\<close>

lemma length_pushLinked: "length (pushLinkedCMEInfos h m a les) = length h"
  by (induction les arbitrary: h) (auto simp: length_arrayPush split: option.splits)

lemma pushLinked_other: "x \<noteq> a \<Longrightarrow> pushLinkedCMEInfos h m a les ! x = h ! x"
  by (induction les arbitrary: h) (auto simp: arrayPush_other split: option.splits)

lemma readCME_pushLinked: "readCME (pushLinkedCMEInfos h m a les) = readCME h"
  by (induction les arbitrary: h) (auto simp: readCME_arrayPush split: option.splits)

lemma getCME_pushLinked: "getCME (pushLinkedCMEInfos h m a les) m = getCME h m"
  by (induction les arbitrary: h) (auto simp: getCME_arrayPush split: option.splits)

text \<open>The callbacks: every object that was there is left as it was, the new flare or
  shock is a new object, and no new object is a CME.\<close>

lemma annotateFlare_shape:
  "\<exists>v. fst (annotateFlare h m flare)
       = pushLinkedCMEInfos (h @ [InfoArray []]) m (length h)
           (case fl_linkedEvents flare of None \<Rightarrow> [] | Some les \<Rightarrow> les) @ [FlareObj v]
     \<and> snd (annotateFlare h m flare) = Suc (length h)"
  by (cases "fl_linkedEvents flare")
     (simp_all add: annotateFlare_def alloc_def Let_def length_pushLinked)

lemma annotateFlare_frame:
  assumes "x < length h"
  shows "fst (annotateFlare h m flare) ! x = h ! x"
proof -
  let ?les = "case fl_linkedEvents flare of None \<Rightarrow> [] | Some les \<Rightarrow> les"
  let ?h2 = "pushLinkedCMEInfos (h @ [InfoArray []]) m (length h) ?les"
  from annotateFlare_shape[of h m flare] obtain v
    where s: "fst (annotateFlare h m flare) = ?h2 @ [FlareObj v]" by blast
  have "length ?h2 = Suc (length h)" by (simp add: length_pushLinked)
  with assms have "(?h2 @ [FlareObj v]) ! x = ?h2 ! x" by (simp add: nth_append)
  also from assms have "\<dots> = (h @ [InfoArray []]) ! x" by (simp add: pushLinked_other)
  also from assms have "\<dots> = h ! x" by (simp add: nth_append)
  finally show ?thesis using s by simp
qed

lemma length_annotateFlare: "length (fst (annotateFlare h m flare)) = Suc (Suc (length h))"
  using annotateFlare_shape[of h m flare] by (auto simp: length_pushLinked)

lemma snd_annotateFlare: "snd (annotateFlare h m flare) = Suc (length h)"
  using annotateFlare_shape[of h m flare] by blast

lemma readCME_annotateFlare: "readCME (fst (annotateFlare h m flare)) = readCME h"
proof -
  let ?les = "case fl_linkedEvents flare of None \<Rightarrow> [] | Some les \<Rightarrow> les"
  from annotateFlare_shape[of h m flare] obtain v
    where s: "fst (annotateFlare h m flare)
                = pushLinkedCMEInfos (h @ [InfoArray []]) m (length h) ?les @ [FlareObj v]"
    by blast
  show ?thesis unfolding s by (simp add: readCME_snoc readCME_pushLinked)
qed

lemma mapFlares_frame: "x < length h \<Longrightarrow> fst (mapFlares h m frs) ! x = h ! x"
proof (induction frs arbitrary: h)
  case Nil
  then show ?case by simp
next
  case (Cons fr frs)
  show ?case
  proof (cases "readFlare h fr")
    case None
    with Cons show ?thesis by simp
  next
    case (Some flare)
    let ?h1 = "fst (annotateFlare h m flare)"
    from Cons.prems have "x < length ?h1" by (simp add: length_annotateFlare)
    then have "fst (mapFlares ?h1 m frs) ! x = ?h1 ! x" by (rule Cons.IH)
    also from Cons.prems have "\<dots> = h ! x" by (rule annotateFlare_frame)
    finally show ?thesis using Some by (simp add: split_beta)
  qed
qed

lemma length_mapFlares: "length h \<le> length (fst (mapFlares h m frs))"
proof (induction frs arbitrary: h)
  case Nil
  then show ?case by simp
next
  case (Cons fr frs)
  show ?case
  proof (cases "readFlare h fr")
    case None
    with Cons show ?thesis by simp
  next
    case (Some flare)
    have "length (fst (annotateFlare h m flare))
            \<le> length (fst (mapFlares (fst (annotateFlare h m flare)) m frs))"
      by (rule Cons.IH)
    then show ?thesis using Some by (simp add: split_beta length_annotateFlare)
  qed
qed

lemma readCME_mapFlares: "readCME (fst (mapFlares h m frs)) = readCME h"
proof (induction frs arbitrary: h)
  case Nil
  then show ?case by simp
next
  case (Cons fr frs)
  then show ?case
    by (cases "readFlare h fr") (simp_all add: split_beta readCME_annotateFlare)
qed

lemma mapFlares_fresh: "\<forall>n\<in>set (snd (mapFlares h m frs)). length h \<le> n"
proof (induction frs arbitrary: h)
  case Nil
  then show ?case by simp
next
  case (Cons fr frs)
  show ?case
  proof (cases "readFlare h fr")
    case None
    with Cons show ?thesis by simp
  next
    case (Some flare)
    have "\<forall>n\<in>set (snd (mapFlares (fst (annotateFlare h m flare)) m frs)).
            length (fst (annotateFlare h m flare)) \<le> n"
      by (rule Cons.IH)
    then show ?thesis using Some
      by (auto simp: split_beta length_annotateFlare snd_annotateFlare)
  qed
qed

lemma annotateShock_frame: "x < length h \<Longrightarrow> fst (annotateShock h m ips) ! x = h ! x"
  by (simp add: annotateShock_def alloc_def nth_append)

lemma length_annotateShock: "length (fst (annotateShock h m ips)) = Suc (length h)"
  by (simp add: annotateShock_def alloc_def)

lemma snd_annotateShock: "snd (annotateShock h m ips) = length h"
  by (simp add: annotateShock_def alloc_def)

lemma readCME_annotateShock: "readCME (fst (annotateShock h m ips)) = readCME h"
  by (simp add: annotateShock_def alloc_def readCME_snoc)

lemma mapShocks_frame: "x < length h \<Longrightarrow> fst (mapShocks h m srs) ! x = h ! x"
proof (induction srs arbitrary: h)
  case Nil
  then show ?case by simp
next
  case (Cons sr srs)
  show ?case
  proof (cases "readShock h sr")
    case None
    with Cons show ?thesis by simp
  next
    case (Some ips)
    let ?h1 = "fst (annotateShock h m ips)"
    from Cons.prems have "x < length ?h1" by (simp add: length_annotateShock)
    then have "fst (mapShocks ?h1 m srs) ! x = ?h1 ! x" by (rule Cons.IH)
    also from Cons.prems have "\<dots> = h ! x" by (rule annotateShock_frame)
    finally show ?thesis using Some by (simp add: split_beta)
  qed
qed

lemma length_mapShocks: "length h \<le> length (fst (mapShocks h m srs))"
proof (induction srs arbitrary: h)
  case Nil
  then show ?case by simp
next
  case (Cons sr srs)
  show ?case
  proof (cases "readShock h sr")
    case None
    with Cons show ?thesis by simp
  next
    case (Some ips)
    have "length (fst (annotateShock h m ips))
            \<le> length (fst (mapShocks (fst (annotateShock h m ips)) m srs))"
      by (rule Cons.IH)
    then show ?thesis using Some by (simp add: split_beta length_annotateShock)
  qed
qed

lemma readCME_mapShocks: "readCME (fst (mapShocks h m srs)) = readCME h"
proof (induction srs arbitrary: h)
  case Nil
  then show ?case by simp
next
  case (Cons sr srs)
  then show ?case
    by (cases "readShock h sr") (simp_all add: split_beta readCME_annotateShock)
qed

lemma mapShocks_fresh: "\<forall>n\<in>set (snd (mapShocks h m srs)). length h \<le> n"
proof (induction srs arbitrary: h)
  case Nil
  then show ?case by simp
next
  case (Cons sr srs)
  show ?case
  proof (cases "readShock h sr")
    case None
    with Cons show ?thesis by simp
  next
    case (Some ips)
    have "\<forall>n\<in>set (snd (mapShocks (fst (annotateShock h m ips)) m srs)).
            length (fst (annotateShock h m ips)) \<le> n"
      by (rule Cons.IH)
    then show ?thesis using Some
      by (auto simp: split_beta length_annotateShock snd_annotateShock)
  qed
qed

text \<open>The whole of each correlation.\<close>

lemma correlateFlaresStore_frame:
  assumes "x < length h"
  shows "fst (correlateFlaresStore h cs frs) ! x = h ! x"
proof -
  let ?h2 = "fillCmeMap (h @ [CmeMap Map.empty]) (length h) cs"
  from assms have "x < length ?h2" by (simp add: length_fillCmeMap)
  then have "fst (mapFlares ?h2 (length h) frs) ! x = ?h2 ! x" by (rule mapFlares_frame)
  also from assms have "\<dots> = (h @ [CmeMap Map.empty]) ! x" by (simp add: fillCmeMap_other)
  also from assms have "\<dots> = h ! x" by (simp add: nth_append)
  finally show ?thesis by (simp add: correlateFlaresStore_def alloc_def)
qed

lemma correlateIPSStore_frame:
  assumes "x < length h"
  shows "fst (correlateIPSStore h cs srs) ! x = h ! x"
proof -
  let ?h2 = "fillCmeMap (h @ [CmeMap Map.empty]) (length h) cs"
  from assms have "x < length ?h2" by (simp add: length_fillCmeMap)
  then have "fst (mapShocks ?h2 (length h) srs) ! x = ?h2 ! x" by (rule mapShocks_frame)
  also from assms have "\<dots> = (h @ [CmeMap Map.empty]) ! x" by (simp add: fillCmeMap_other)
  also from assms have "\<dots> = h ! x" by (simp add: nth_append)
  finally show ?thesis by (simp add: correlateIPSStore_def alloc_def)
qed

lemma readCME_correlateFlaresStore: "readCME (fst (correlateFlaresStore h cs frs)) = readCME h"
  by (simp add: correlateFlaresStore_def alloc_def readCME_mapFlares readCME_fillCmeMap
        readCME_snoc)

lemma readCME_correlateIPSStore: "readCME (fst (correlateIPSStore h cs srs)) = readCME h"
  by (simp add: correlateIPSStore_def alloc_def readCME_mapShocks readCME_fillCmeMap
        readCME_snoc)

lemma correlateFlaresStore_fresh:
  "\<forall>n\<in>set (snd (correlateFlaresStore h cs frs)). length h \<le> n"
  using mapFlares_fresh[of "fillCmeMap (h @ [CmeMap Map.empty]) (length h) cs" "length h" frs]
  by (auto simp: correlateFlaresStore_def alloc_def length_fillCmeMap)

lemma correlateIPSStore_fresh:
  "\<forall>n\<in>set (snd (correlateIPSStore h cs srs)). length h \<le> n"
  using mapShocks_fresh[of "fillCmeMap (h @ [CmeMap Map.empty]) (length h) cs" "length h" srs]
  by (auto simp: correlateIPSStore_def alloc_def length_fillCmeMap)

section \<open>Auxiliary facts: relevance and the relevant analysis\<close>

lemma isPotentiallyEarthRelevant_iff:
  "isPotentiallyEarthRelevant cme \<longleftrightarrow>
     (\<exists>a\<in>set (analysesOf cme). isMostAccurate a \<or> simulationsOf a \<noteq> []
        \<or> (\<exists>s pre post. an_note a = Some s \<and> toLowerCase s = pre @ ''earth'' @ post))"
proof -
  have m: "mentionsEarth n \<longleftrightarrow> (\<exists>s pre post. n = Some s \<and> toLowerCase s = pre @ ''earth'' @ post)"
    for n
    by (cases n) (auto simp: mentionsEarth_def truthyStr_def includesStr_iff toLowerCase_def)
  show ?thesis
    by (cases "cmeAnalyses cme")
       (auto simp: isPotentiallyEarthRelevant_def analysesOf_def list_ex_iff m
          nonEmpty_simulations)
qed

lemma find_Some_set: "find P xs = Some x \<Longrightarrow> x \<in> set xs \<and> P x"
  by (auto simp: find_Some_iff)

lemma relevantAnalysis_mem:
  "relevantAnalysisOf cme = Some ra \<Longrightarrow> ra \<in> set (analysesOf cme)"
  by (cases "cmeAnalyses cme")
     (auto simp: relevantAnalysisOf_def analysesOf_def first_def Let_def
        split: option.splits list.splits dest: find_Some_set)

lemma relevantAnalysis_accurate:
  assumes "a \<in> set (analysesOf cme)" "isMostAccurate a"
  shows "\<exists>ra. relevantAnalysisOf cme = Some ra \<and> ra \<in> set (analysesOf cme)"
proof -
  from assms obtain as where as: "cmeAnalyses cme = Some as" "a \<in> set as"
    by (cases "cmeAnalyses cme") (auto simp: analysesOf_def)
  with assms(2) have "find isMostAccurate as \<noteq> None" by (auto simp: find_None_iff)
  then obtain ra where "find isMostAccurate as = Some ra" by blast
  with as show ?thesis
    by (auto simp: relevantAnalysisOf_def analysesOf_def dest: find_Some_set)
qed

section \<open>Auxiliary facts: the store agrees with the functions\<close>

lemma length_two: "length xs = 2 \<Longrightarrow> \<exists>a b. xs = [a, b]"
  by (cases xs; simp) (rename_tac ys, case_tac ys; simp)

lemma toAssociatedCMEInfo_fun:
  "toAssociatedCMEInfo = (\<lambda>cme. \<lparr> info_activityID = activityID cme,
                                   info_startTime = Some (startTime cme),
                                   info_note = Some (cme_note cme),
                                   info_link = Some (link cme),
                                   info_earthImpactScore = earthImpactScore cme \<rparr>)"
  by (rule ext) (simp add: toAssociatedCMEInfo_def)

lemma readFlare_less: "readFlare h r \<noteq> None \<Longrightarrow> r < length h"
  by (simp add: readFlare_def split: if_splits)

lemma readShock_less: "readShock h r \<noteq> None \<Longrightarrow> r < length h"
  by (simp add: readShock_def split: if_splits)

lemma readFlare_nth: "x < length h \<Longrightarrow> h' ! x = h ! x \<Longrightarrow> x < length h' \<Longrightarrow>
  readFlare h' x = readFlare h x"
  by (simp add: readFlare_def)

lemma readShock_nth: "x < length h \<Longrightarrow> h' ! x = h ! x \<Longrightarrow> x < length h' \<Longrightarrow>
  readShock h' x = readShock h x"
  by (simp add: readShock_def)

lemma getCME_mapSet:
  assumes "m < length h" "h ! m = CmeMap f" "readCME h r = Some cme"
  shows "getCME (mapSet h m k r) m = (getCME h m)(k \<mapsto> cme)"
proof (rule ext)
  fix k'
  from assms(1,2) have "mapGet (mapSet h m k r) m k' = (f(k \<mapsto> r)) k'"
    by (simp add: mapGet_def mapSet_def writeObj_def)
  moreover from assms(1,2) have "mapGet h m k' = f k'" by (simp add: mapGet_def)
  ultimately show "getCME (mapSet h m k r) m k' = ((getCME h m)(k \<mapsto> cme)) k'"
    using assms(3) by (simp add: getCME_def readCME_mapSet split: option.splits)
qed

lemma getCME_fillCmeMap:
  assumes "m < length h" "\<exists>f. h ! m = CmeMap f" "\<forall>r\<in>set cs. readCME h r \<noteq> None"
  shows "getCME (fillCmeMap h m cs) m
         = foldl (\<lambda>M c. M(activityID c \<mapsto> c)) (getCME h m) (map (\<lambda>r. the (readCME h r)) cs)"
  using assms
proof (induction cs arbitrary: h)
  case Nil
  then show ?case by simp
next
  case (Cons r cs)
  then obtain cme f where c: "readCME h r = Some cme" and f: "h ! m = CmeMap f" by auto
  let ?h1 = "mapSet h m (activityID cme) r"
  have 1: "m < length ?h1" using Cons.prems(1) by (simp add: length_mapSet)
  have 2: "\<exists>g. ?h1 ! m = CmeMap g" using Cons.prems(1) f by (simp add: isMap_mapSet)
  have 3: "\<forall>x\<in>set cs. readCME ?h1 x \<noteq> None" using Cons.prems(3) by (simp add: readCME_mapSet)
  have "getCME (fillCmeMap ?h1 m cs) m
         = foldl (\<lambda>M c. M(activityID c \<mapsto> c)) (getCME ?h1 m) (map (\<lambda>r. the (readCME ?h1 r)) cs)"
    by (rule Cons.IH[OF 1 2 3])
  also have "getCME ?h1 m = (getCME h m)(activityID cme \<mapsto> cme)"
    by (rule getCME_mapSet[OF Cons.prems(1) f c])
  finally show ?case using c by (simp add: readCME_mapSet)
qed

lemma getCME_empty: "getCME (h @ [CmeMap Map.empty]) (length h) = Map.empty"
  by (rule ext) (simp add: getCME_def mapGet_def)

lemma getCME_filled:
  assumes "\<forall>r\<in>set cs. readCME h r \<noteq> None"
  shows "getCME (fillCmeMap (h @ [CmeMap Map.empty]) (length h) cs) (length h)
         = cmeMapOf (map (\<lambda>r. the (readCME h r)) cs)"
proof -
  let ?h1 = "h @ [CmeMap Map.empty]"
  have r: "readCME ?h1 = readCME h" by (simp add: readCME_snoc)
  have "getCME (fillCmeMap ?h1 (length h) cs) (length h)
         = foldl (\<lambda>M c. M(activityID c \<mapsto> c)) (getCME ?h1 (length h))
             (map (\<lambda>r. the (readCME ?h1 r)) cs)"
    by (rule getCME_fillCmeMap) (use assms in \<open>simp_all add: r\<close>)
  then show ?thesis by (simp add: getCME_empty r cmeMapOf_def)
qed

lemma pushLinked_collect:
  assumes "a < length h" "h ! a = InfoArray xs"
  shows "pushLinkedCMEInfos h m a les ! a = InfoArray (collectLinkedCMEInfos (getCME h m) les xs)"
  using assms
proof (induction les arbitrary: h xs)
  case Nil
  then show ?case by simp
next
  case (Cons le les)
  show ?case
  proof (cases "getCME h m (le_activityID le)")
    case None
    with Cons show ?thesis by simp
  next
    case (Some c)
    let ?h1 = "arrayPush h a (toAssociatedCMEInfo c)"
    have 1: "a < length ?h1" using Cons.prems(1) by (simp add: length_arrayPush)
    have 2: "?h1 ! a = InfoArray (xs @ [toAssociatedCMEInfo c])"
      using Cons.prems by (rule readInfos_arrayPush)
    have "pushLinkedCMEInfos ?h1 m a les ! a
            = InfoArray (collectLinkedCMEInfos (getCME ?h1 m) les (xs @ [toAssociatedCMEInfo c]))"
      by (rule Cons.IH[OF 1 2])
    then show ?thesis using Some by (simp add: getCME_arrayPush)
  qed
qed

lemma readFlare_new: "readFlare (g @ [FlareObj v]) (length g) = Some v"
  by (simp add: readFlare_def)

lemma annotateFlare_result:
  assumes "m < length h"
  shows "readFlare (fst (annotateFlare h m flare)) (snd (annotateFlare h m flare))
         = Some (correlateFlare (getCME h m) flare)"
proof -
  let ?h1 = "h @ [InfoArray []]"
  let ?a = "length h"
  let ?les = "case fl_linkedEvents flare of None \<Rightarrow> [] | Some les \<Rightarrow> les"
  let ?h2 = "pushLinkedCMEInfos ?h1 m ?a ?les"
  let ?infos = "collectLinkedCMEInfos (getCME h m) ?les []"
  let ?new = "flare\<lparr> associatedCMEs := (if length ?infos > 0 then Some ?infos else None) \<rparr>"
  have g: "getCME ?h1 m = getCME h m" using assms by (simp add: getCME_snoc)
  have "?h2 ! ?a = InfoArray (collectLinkedCMEInfos (getCME ?h1 m) ?les [])"
    by (rule pushLinked_collect) simp_all
  then have infos: "readInfos ?h2 ?a = ?infos"
    by (simp add: readInfos_def length_pushLinked g)
  have h2: "(case fl_linkedEvents flare of None \<Rightarrow> ?h1
             | Some les \<Rightarrow> pushLinkedCMEInfos ?h1 m ?a les) = ?h2"
    by (cases "fl_linkedEvents flare") simp_all
  have "annotateFlare h m flare = (?h2 @ [FlareObj ?new], length ?h2)"
    by (simp only: annotateFlare_def alloc_def Let_def split_conv h2 infos)
  then have "readFlare (fst (annotateFlare h m flare)) (snd (annotateFlare h m flare))
               = Some ?new"
    by (simp only: fst_conv snd_conv readFlare_new)
  also have "?new = correlateFlare (getCME h m) flare"
    by (cases "fl_linkedEvents flare") (simp_all add: correlateFlare_def)
  finally show ?thesis .
qed

lemma getCME_annotateFlare:
  assumes "m < length h"
  shows "getCME (fst (annotateFlare h m flare)) m = getCME h m"
proof -
  let ?les = "case fl_linkedEvents flare of None \<Rightarrow> [] | Some les \<Rightarrow> les"
  let ?h2 = "pushLinkedCMEInfos (h @ [InfoArray []]) m (length h) ?les"
  from annotateFlare_shape[of h m flare] obtain v
    where s: "fst (annotateFlare h m flare) = ?h2 @ [FlareObj v]" by blast
  have "m < length ?h2" using assms by (simp add: length_pushLinked)
  then have "getCME (?h2 @ [FlareObj v]) m = getCME ?h2 m" by (simp add: getCME_snoc)
  also have "\<dots> = getCME (h @ [InfoArray []]) m" by (rule getCME_pushLinked)
  also have "\<dots> = getCME h m" using assms by (simp add: getCME_snoc)
  finally show ?thesis using s by simp
qed

lemma mapFlares_result:
  assumes "m < length h" "\<forall>fr\<in>set frs. readFlare h fr \<noteq> None"
  shows "map (readFlare (fst (mapFlares h m frs))) (snd (mapFlares h m frs))
         = map (\<lambda>fr. Some (correlateFlare (getCME h m) (the (readFlare h fr)))) frs"
  using assms
proof (induction frs arbitrary: h)
  case Nil
  then show ?case by simp
next
  case (Cons fr frs)
  then obtain flare where fl: "readFlare h fr = Some flare" by auto
  let ?h1 = "fst (annotateFlare h m flare)"
  let ?r1 = "snd (annotateFlare h m flare)"
  have l1: "length ?h1 = Suc (Suc (length h))" by (rule length_annotateFlare)
  have m1: "m < length ?h1" using Cons.prems(1) l1 by simp
  have old: "readFlare ?h1 x = readFlare h x" if "x \<in> set frs" for x
  proof -
    from that Cons.prems(2) have "readFlare h x \<noteq> None" by simp
    then have "x < length h" by (rule readFlare_less)
    then show ?thesis using l1 by (intro readFlare_nth) (simp_all add: annotateFlare_frame)
  qed
  then have v1: "\<forall>x\<in>set frs. readFlare ?h1 x \<noteq> None" using Cons.prems(2) by simp
  have ih: "map (readFlare (fst (mapFlares ?h1 m frs))) (snd (mapFlares ?h1 m frs))
         = map (\<lambda>fr. Some (correlateFlare (getCME ?h1 m) (the (readFlare ?h1 fr)))) frs"
    by (rule Cons.IH[OF m1 v1])
  have tl: "map (readFlare (fst (mapFlares ?h1 m frs))) (snd (mapFlares ?h1 m frs))
         = map (\<lambda>fr. Some (correlateFlare (getCME h m) (the (readFlare h fr)))) frs"
    unfolding ih using old by (simp add: getCME_annotateFlare[OF Cons.prems(1)])
  have r1: "?r1 < length ?h1" by (simp add: snd_annotateFlare l1)
  have "fst (mapFlares ?h1 m frs) ! ?r1 = ?h1 ! ?r1" using r1 by (rule mapFlares_frame)
  moreover have "?r1 < length (fst (mapFlares ?h1 m frs))"
    using r1 length_mapFlares[of ?h1 m frs] by simp
  ultimately have "readFlare (fst (mapFlares ?h1 m frs)) ?r1 = readFlare ?h1 ?r1"
    using r1 by (simp add: readFlare_def)
  then have hd: "readFlare (fst (mapFlares ?h1 m frs)) ?r1
                   = Some (correlateFlare (getCME h m) flare)"
    by (simp add: annotateFlare_result[OF Cons.prems(1)])
  show ?case using fl hd tl by (simp add: split_beta)
qed

lemma annotateShock_result:
  "readShock (fst (annotateShock h m ips)) (snd (annotateShock h m ips))
     = Some (correlateIPS (getCME h m) ips)"
  by (simp add: annotateShock_def alloc_def readShock_def nth_append)

lemma getCME_annotateShock:
  "m < length h \<Longrightarrow> getCME (fst (annotateShock h m ips)) m = getCME h m"
  by (simp add: annotateShock_def alloc_def getCME_snoc)

lemma mapShocks_result:
  assumes "m < length h" "\<forall>sr\<in>set srs. readShock h sr \<noteq> None"
  shows "map (readShock (fst (mapShocks h m srs))) (snd (mapShocks h m srs))
         = map (\<lambda>sr. Some (correlateIPS (getCME h m) (the (readShock h sr)))) srs"
  using assms
proof (induction srs arbitrary: h)
  case Nil
  then show ?case by simp
next
  case (Cons sr srs)
  then obtain ips where fl: "readShock h sr = Some ips" by auto
  let ?h1 = "fst (annotateShock h m ips)"
  let ?r1 = "snd (annotateShock h m ips)"
  have l1: "length ?h1 = Suc (length h)" by (rule length_annotateShock)
  have m1: "m < length ?h1" using Cons.prems(1) l1 by simp
  have old: "readShock ?h1 x = readShock h x" if "x \<in> set srs" for x
  proof -
    from that Cons.prems(2) have "readShock h x \<noteq> None" by simp
    then have "x < length h" by (rule readShock_less)
    then show ?thesis using l1 by (intro readShock_nth) (simp_all add: annotateShock_frame)
  qed
  then have v1: "\<forall>x\<in>set srs. readShock ?h1 x \<noteq> None" using Cons.prems(2) by simp
  have ih: "map (readShock (fst (mapShocks ?h1 m srs))) (snd (mapShocks ?h1 m srs))
         = map (\<lambda>sr. Some (correlateIPS (getCME ?h1 m) (the (readShock ?h1 sr)))) srs"
    by (rule Cons.IH[OF m1 v1])
  have tl: "map (readShock (fst (mapShocks ?h1 m srs))) (snd (mapShocks ?h1 m srs))
         = map (\<lambda>sr. Some (correlateIPS (getCME h m) (the (readShock h sr)))) srs"
    unfolding ih using old by (simp add: getCME_annotateShock[OF Cons.prems(1)])
  have r1: "?r1 < length ?h1" by (simp add: snd_annotateShock l1)
  have "fst (mapShocks ?h1 m srs) ! ?r1 = ?h1 ! ?r1" using r1 by (rule mapShocks_frame)
  moreover have "?r1 < length (fst (mapShocks ?h1 m srs))"
    using r1 length_mapShocks[of ?h1 m srs] by simp
  ultimately have "readShock (fst (mapShocks ?h1 m srs)) ?r1 = readShock ?h1 ?r1"
    using r1 by (simp add: readShock_def)
  then have hd: "readShock (fst (mapShocks ?h1 m srs)) ?r1
                   = Some (correlateIPS (getCME h m) ips)"
    by (simp add: annotateShock_result)
  show ?case using fl hd tl by (simp add: split_beta)
qed

lemma correlateFlaresStore_pure:
  assumes "\<forall>r\<in>set cs. readCME h r \<noteq> None" "\<forall>fr\<in>set frs. readFlare h fr \<noteq> None"
  shows "map (readFlare (fst (correlateFlaresStore h cs frs))) (snd (correlateFlaresStore h cs frs))
         = map Some (correlateFlares (map (\<lambda>r. the (readCME h r)) cs)
                                     (map (\<lambda>fr. the (readFlare h fr)) frs))"
proof -
  let ?m = "length h"
  let ?h2 = "fillCmeMap (h @ [CmeMap Map.empty]) ?m cs"
  have m: "?m < length ?h2" by (simp add: length_fillCmeMap)
  have old: "readFlare ?h2 x = readFlare h x" if "x \<in> set frs" for x
  proof -
    from that assms(2) have "readFlare h x \<noteq> None" by simp
    then have "x < length h" by (rule readFlare_less)
    then show ?thesis
      by (intro readFlare_nth) (simp_all add: fillCmeMap_other length_fillCmeMap nth_append)
  qed
  then have v: "\<forall>x\<in>set frs. readFlare ?h2 x \<noteq> None" using assms(2) by simp
  have "map (readFlare (fst (mapFlares ?h2 ?m frs))) (snd (mapFlares ?h2 ?m frs))
         = map (\<lambda>fr. Some (correlateFlare (getCME ?h2 ?m) (the (readFlare ?h2 fr)))) frs"
    by (rule mapFlares_result[OF m v])
  also have "\<dots> = map (\<lambda>fr. Some (correlateFlare (cmeMapOf (map (\<lambda>r. the (readCME h r)) cs))
                                    (the (readFlare h fr)))) frs"
    using old by (simp add: getCME_filled[OF assms(1)])
  finally show ?thesis
    by (simp add: correlateFlaresStore_def alloc_def correlateFlares_def comp_def)
qed

lemma correlateIPSStore_pure:
  assumes "\<forall>r\<in>set cs. readCME h r \<noteq> None" "\<forall>sr\<in>set srs. readShock h sr \<noteq> None"
  shows "map (readShock (fst (correlateIPSStore h cs srs))) (snd (correlateIPSStore h cs srs))
         = map Some (correlateIPSEvents (map (\<lambda>r. the (readCME h r)) cs)
                                        (map (\<lambda>sr. the (readShock h sr)) srs))"
proof -
  let ?m = "length h"
  let ?h2 = "fillCmeMap (h @ [CmeMap Map.empty]) ?m cs"
  have m: "?m < length ?h2" by (simp add: length_fillCmeMap)
  have old: "readShock ?h2 x = readShock h x" if "x \<in> set srs" for x
  proof -
    from that assms(2) have "readShock h x \<noteq> None" by simp
    then have "x < length h" by (rule readShock_less)
    then show ?thesis
      by (intro readShock_nth) (simp_all add: fillCmeMap_other length_fillCmeMap nth_append)
  qed
  then have v: "\<forall>x\<in>set srs. readShock ?h2 x \<noteq> None" using assms(2) by simp
  have "map (readShock (fst (mapShocks ?h2 ?m srs))) (snd (mapShocks ?h2 ?m srs))
         = map (\<lambda>sr. Some (correlateIPS (getCME ?h2 ?m) (the (readShock ?h2 sr)))) srs"
    by (rule mapShocks_result[OF m v])
  also have "\<dots> = map (\<lambda>sr. Some (correlateIPS (cmeMapOf (map (\<lambda>r. the (readCME h r)) cs))
                                    (the (readShock h sr)))) srs"
    using old by (simp add: getCME_filled[OF assms(1)])
  finally show ?thesis
    by (simp add: correlateIPSStore_def alloc_def correlateIPSEvents_def comp_def)
qed

section \<open>Unfolding rules for the examples\<close>

lemmas example_defs = cmeA_def cmeB_def cmeADup_def cmeEmptyArrival_def cmeLateArrival_def
  cmeNoteOnly_def cmeAccurateOnly_def cmeStill_def cmeWith_def analysisWith_def
  simEarthArrival_def simEarthNoArrival_def simEarthEmptyArrival_def enhancedA_def
  enhancedB_def enhancedADup_def enhancedStill_def

lemmas enrich_defs = enhanceCMEData_def relevantAnalysisOf_def firstEarthEnlilOf_def first_def
  isEarthSimulation_def applyEarthEnlil_def applyEarthNote_def truthyStr_def spreadCME_def
  Let_def isPotentiallyEarthRelevant_def nonEmpty_def mentionsEarth_def scoreGt_def
  toLowerCase_def toLowerChar_def

lemmas spec_defs = specRelevantAnalysis_def specPrimaryEarthSim_def specEarthFlagged_def
  specNoteMentionsEarth_def specTier_def specTierNoteOnly_def hasEarthFlaggedArrival_def
  analysesOf_def simulationsOf_def impactsOf_def toLowerCase_def toLowerChar_def

lemmas rank_defs = rankTen_def rankEight_def rankTwo_def rankFour_def rankNoArrival_def
  rankTwoLate_def rankThree_def rankNoDate_def rankArrivalNoDate_def enhancedWith_def cmeWith_def
  spreadCME_def

lemmas sort_defs = earthDirectedCMEs_def otherCMEs_def partitionCMEs_def compareCME_def
  arrivalKey_def getTime_def demoClock_def js_sub_def js_neq_def keepsOrder_def numOf_def
  orInfinity_def one_enat_def zero_enat_def numeral_eq_enat Let_def

lemmas order_defs = specRankedBefore_def specEarlierArrival_def specSameArrival_def
  specNotEarlierStart_def demoClock_def one_enat_def numeral_eq_enat

lemmas corr_defs = correlateFlare_def correlateIPS_def cmeMapOf_def flareF_def shockS_def
  shockStill_def toAssociatedCMEInfo_def orUndefined_def linksOfFlare_def

lemmas store_defs = correlateFlaresStore_def correlateIPSStore_def readCME_def readFlare_def
  readShock_def readInfos_def mapGet_def mapSet_def arrayPush_def writeObj_def getCME_def
  annotateFlare_def annotateShock_def alloc_def

section \<open>Claims about enrichment\<close>

text \<open>
  Claim C6. For every CME, \<open>enhanceCMEData\<close> returns an enhanced record and raises no
  error: the one read that could fail, the first impact entry of the simulation found by
  \<open>find\<close>, is guarded by the predicate of that \<open>find\<close>. When the CME has no analyses
  (the field absent, or an empty array) the record has score \<open>Infinity\<close>, every display
  field absent, and \<open>isPotentiallyEarthDirected = false\<close>.
\<close>

theorem enrich_total:
  "(\<exists>e. enhanceCMEData cme = Inr e)
   \<and> (cmeAnalyses cme = None \<or> cmeAnalyses cme = Some [] \<longrightarrow>
        (\<exists>e. enhanceCMEData cme = Inr e
           \<and> earthImpactScore e = Some \<infinity>
           \<and> displayAnalysisSpeed e = None \<and> displayAnalysisHalfAngle e = None
           \<and> displayAnalysisType e = None \<and> displayAnalysisNote e = None
           \<and> displayEnlilArrivalTime e = None \<and> displayEnlilDuration e = None
           \<and> displayEnlilImpactLocations e = None
           \<and> isPotentiallyEarthDirected e = Some False))"
proof (intro conjI impI)
  show "\<exists>e. enhanceCMEData cme = Inr e" by (rule enhance_returns)
next
  assume "cmeAnalyses cme = None \<or> cmeAnalyses cme = Some []"
  from enhance_noAnalyses[OF this]
  show "\<exists>e. enhanceCMEData cme = Inr e
           \<and> earthImpactScore e = Some \<infinity>
           \<and> displayAnalysisSpeed e = None \<and> displayAnalysisHalfAngle e = None
           \<and> displayAnalysisType e = None \<and> displayAnalysisNote e = None
           \<and> displayEnlilArrivalTime e = None \<and> displayEnlilDuration e = None
           \<and> displayEnlilImpactLocations e = None
           \<and> isPotentiallyEarthDirected e = Some False"
    by (simp add: spreadCME_def)
qed

text \<open>Scenario B, and a CME with one analysis.\<close>

theorem enrich_total_witness:
  "cmeAnalyses cmeB = None
   \<and> (\<exists>e. enhanceCMEData cmeB = Inr e \<and> earthImpactScore e = Some \<infinity>
          \<and> displayAnalysisSpeed e = None \<and> displayEnlilArrivalTime e = None
          \<and> isPotentiallyEarthDirected e = Some False)
   \<and> (\<exists>e. enhanceCMEData cmeNoteOnly = Inr e)"
proof -
  have h: "cmeAnalyses cmeB = None" by (simp add: cmeB_def cmeWith_def)
  from enrich_total[of cmeB] enrich_total[of cmeNoteOnly] h show ?thesis by blast
qed

text \<open>
  Claim C5. For every CME, the enhanced record has \<open>isPotentiallyEarthDirected\<close> true
  exactly when the CME has an analysis that is flagged most accurate, or has at least one
  ENLIL simulation, or has a note whose lower-cased text contains \<open>earth\<close>; a CME with
  zero analyses has the flag false.
\<close>

theorem relevance_flag:
  "\<exists>e. enhanceCMEData cme = Inr e
     \<and> isPotentiallyEarthDirected e =
         Some (\<exists>a\<in>set (analysesOf cme).
                 isMostAccurate a
                 \<or> simulationsOf a \<noteq> []
                 \<or> (\<exists>s pre post. an_note a = Some s \<and> toLowerCase s = pre @ ''earth'' @ post))
     \<and> (analysesOf cme = [] \<longrightarrow> isPotentiallyEarthDirected e = Some False)"
proof -
  obtain e where e: "enhanceCMEData cme = Inr e" using enhance_returns by blast
  from enhance_flag[OF e] have f: "isPotentiallyEarthDirected e =
         Some (\<exists>a\<in>set (analysesOf cme).
                 isMostAccurate a
                 \<or> simulationsOf a \<noteq> []
                 \<or> (\<exists>s pre post. an_note a = Some s \<and> toLowerCase s = pre @ ''earth'' @ post))"
    by (simp only: isPotentiallyEarthRelevant_iff)
  then have "analysesOf cme = [] \<longrightarrow> isPotentiallyEarthDirected e = Some False" by simp
  with e f show ?thesis by blast
qed

text \<open>Scenario B has no analysis; the note of the other CME contains \<open>Earth\<close>.\<close>

theorem relevance_flag_witness:
  "analysesOf cmeB = []
   \<and> (\<exists>e. enhanceCMEData cmeB = Inr e \<and> isPotentiallyEarthDirected e = Some False)
   \<and> toLowerCase ''Possible Earth impact'' = ''possible '' @ ''earth'' @ '' impact''
   \<and> (\<exists>e. enhanceCMEData cmeNoteOnly = Inr e \<and> isPotentiallyEarthDirected e = Some True)"
proof -
  have b: "analysesOf cmeB = []" by (simp add: cmeB_def cmeWith_def analysesOf_def)
  have l: "toLowerCase ''Possible Earth impact'' = ''possible '' @ ''earth'' @ '' impact''"
    by (simp add: toLowerCase_def toLowerChar_def)
  have mem: "analysisWith False 450 (Some ''Possible Earth impact'') None
               \<in> set (analysesOf cmeNoteOnly)"
    by (simp add: cmeNoteOnly_def cmeWith_def analysesOf_def)
  have "an_note (analysisWith False 450 (Some ''Possible Earth impact'') None)
          = Some ''Possible Earth impact''
        \<and> toLowerCase ''Possible Earth impact'' = ''possible '' @ ''earth'' @ '' impact''"
    using l by (simp add: analysisWith_def)
  then have ex: "\<exists>s pre post.
       an_note (analysisWith False 450 (Some ''Possible Earth impact'') None) = Some s
       \<and> toLowerCase s = pre @ ''earth'' @ post"
    by blast
  from mem ex have n: "\<exists>a\<in>set (analysesOf cmeNoteOnly).
                 isMostAccurate a
                 \<or> simulationsOf a \<noteq> []
                 \<or> (\<exists>s pre post. an_note a = Some s \<and> toLowerCase s = pre @ ''earth'' @ post)"
    by blast
  from relevance_flag[of cmeB] b
  have 1: "\<exists>e. enhanceCMEData cmeB = Inr e \<and> isPotentiallyEarthDirected e = Some False"
    by blast
  from relevance_flag[of cmeNoteOnly] n
  have 2: "\<exists>e. enhanceCMEData cmeNoteOnly = Inr e \<and> isPotentiallyEarthDirected e = Some True"
    by auto
  from b 1 l 2 show ?thesis by blast
qed

text \<open>
  Claim C1, amended. When the relevant analysis (the first analysis flagged most accurate,
  else the first analysis) has a primary Earth simulation (the first simulation flagged
  Earth-geomagnetic or with an impact entry located at \<open>Earth\<close>) whose arrival time is
  neither null nor the empty string, the enhanced record has score 1 and carries that
  simulation's arrival time, duration and impact locations, the locations being
  \<open>["Earth Geospace"]\<close> when the simulation has no impact list. The code tests the arrival
  time for truthiness, so the empty string counts as missing.
\<close>

theorem primary_simulation_scores_one:
  assumes "specRelevantAnalysis cme = Some ra"
    and "specPrimaryEarthSim ra = Some sim"
    and "estimatedShockArrivalTime sim = Some t"
    and "t \<noteq> []"
  shows "\<exists>e. enhanceCMEData cme = Inr e
     \<and> earthImpactScore e = Some 1
     \<and> displayEnlilArrivalTime e = Some t
     \<and> displayEnlilDuration e = estimatedDuration sim
     \<and> displayEnlilImpactLocations e =
          Some (case impactList sim of Some il \<Rightarrow> map location il
                | None \<Rightarrow> [''Earth Geospace''])"
proof -
  from assms(1) have ra: "relevantAnalysisOf cme = Some ra"
    by (simp add: specRelevantAnalysis_eq)
  from assms(2) have fe: "firstEarthEnlilOf ra = Some sim"
    by (simp add: specPrimaryEarthSim_eq)
  have gb: "isEarthGB sim = Some True" if "impactList sim = None"
    using firstEarth_sound[OF fe that] .
  from enhance_primary[OF ra fe] assms(3,4) gb show ?thesis
    by (auto simp: truthyStr_def split: option.splits)
qed

text \<open>Scenario A.\<close>

theorem primary_simulation_scores_one_witness:
  "specRelevantAnalysis cmeA = Some (analysisWith True 450 None (Some [simEarthArrival]))
   \<and> specPrimaryEarthSim (analysisWith True 450 None (Some [simEarthArrival])) = Some simEarthArrival
   \<and> estimatedShockArrivalTime simEarthArrival = Some ''2024-03-01T12:00Z''
   \<and> (\<exists>e. enhanceCMEData cmeA = Inr e \<and> earthImpactScore e = Some 1
          \<and> displayEnlilArrivalTime e = Some ''2024-03-01T12:00Z''
          \<and> displayEnlilDuration e = Some 12
          \<and> displayEnlilImpactLocations e = Some [''Earth Geospace''])"
proof -
  have a: "specRelevantAnalysis cmeA = Some (analysisWith True 450 None (Some [simEarthArrival]))"
    by (simp add: example_defs spec_defs)
  have b: "specPrimaryEarthSim (analysisWith True 450 None (Some [simEarthArrival])) = Some simEarthArrival"
    by (simp add: example_defs spec_defs)
  have c: "estimatedShockArrivalTime simEarthArrival = Some ''2024-03-01T12:00Z''"
    by (simp add: example_defs)
  have d: "''2024-03-01T12:00Z'' \<noteq> []" by simp
  from primary_simulation_scores_one[OF a b c d] a b c show ?thesis
    by (simp add: simEarthArrival_def)
qed

text \<open>The claim as first stated asks for a non-null arrival time only; an empty arrival
  time is non-null and scores 2.\<close>

theorem empty_arrival_scores_two:
  "specRelevantAnalysis cmeEmptyArrival = Some (analysisWith True 450 None (Some [simEarthEmptyArrival]))
   \<and> specPrimaryEarthSim (analysisWith True 450 None (Some [simEarthEmptyArrival])) = Some simEarthEmptyArrival
   \<and> estimatedShockArrivalTime simEarthEmptyArrival \<noteq> None
   \<and> map_sum id earthImpactScore (enhanceCMEData cmeEmptyArrival) = Inr (Some 2)"
  by (simp add: example_defs spec_defs enrich_defs)

text \<open>
  Claim C2, amended. A CME whose relevant analysis has a primary Earth simulation with an
  arrival time that is neither null nor empty scores exactly 1; and every CME scores at
  least the tier of the first matching rule of the decision list of section 4.1 in which
  the third rule matches on the note alone. The code looks only at the first Earth-flagged
  simulation of the relevant analysis, and gives score 3 to a note that mentions Earth
  whether or not a simulation has an impact list.
\<close>

theorem score_ordering:
  "(specRelevantAnalysis cme = Some ra \<and> specPrimaryEarthSim ra = Some sim
      \<and> estimatedShockArrivalTime sim = Some t \<and> t \<noteq> []
      \<longrightarrow> map_sum id earthImpactScore (enhanceCMEData cme) = Inr (Some 1))
   \<and> (\<exists>e v. enhanceCMEData cme = Inr e \<and> earthImpactScore e = Some v
          \<and> specTierNoteOnly cme \<le> v)"
proof (intro conjI impI)
  assume h: "specRelevantAnalysis cme = Some ra \<and> specPrimaryEarthSim ra = Some sim
      \<and> estimatedShockArrivalTime sim = Some t \<and> t \<noteq> []"
  then have "relevantAnalysisOf cme = Some ra" "firstEarthEnlilOf ra = Some sim"
    by (simp_all add: specRelevantAnalysis_eq specPrimaryEarthSim_eq)
  from enhance_primary[OF this] h
  show "map_sum id earthImpactScore (enhanceCMEData cme) = Inr (Some 1)"
    by (auto simp: truthyStr_def)
next
  obtain e where e: "enhanceCMEData cme = Inr e" using enhance_returns by blast
  let ?v = "case relevantAnalysisOf cme of
        None \<Rightarrow> \<infinity>
      | Some ra \<Rightarrow>
          (case firstEarthEnlilOf ra of
             Some s \<Rightarrow> if truthyStr (estimatedShockArrivalTime s) then 1 else 2
           | None \<Rightarrow> if mentionsEarth (an_note ra) then 3
                     else if nonEmpty (enlilList ra) then 4 else (\<infinity>::enat))"
  have v: "earthImpactScore e = Some ?v" by (rule enhance_score[OF e])
  have "specTierNoteOnly cme \<le> ?v"
    by (auto simp: specTierNoteOnly_def specRelevantAnalysis_eq specPrimaryEarthSim_eq
          specNoteMentionsEarth_eq nonEmpty_simulations truthyStr_def
          split: option.splits)
  with e v show "\<exists>e v. enhanceCMEData cme = Inr e \<and> earthImpactScore e = Some v
          \<and> specTierNoteOnly cme \<le> v" by blast
qed

text \<open>Scenario A scores 1; the CME with only a note has tier 3 and scores at least 3.\<close>

theorem score_ordering_witness:
  "specRelevantAnalysis cmeA = Some (analysisWith True 450 None (Some [simEarthArrival]))
   \<and> specPrimaryEarthSim (analysisWith True 450 None (Some [simEarthArrival])) = Some simEarthArrival
   \<and> estimatedShockArrivalTime simEarthArrival = Some ''2024-03-01T12:00Z''
   \<and> map_sum id earthImpactScore (enhanceCMEData cmeA) = Inr (Some 1)
   \<and> specTierNoteOnly cmeNoteOnly = 3
   \<and> (\<exists>e v. enhanceCMEData cmeNoteOnly = Inr e \<and> earthImpactScore e = Some v \<and> 3 \<le> v)"
proof -
  have a: "specRelevantAnalysis cmeA = Some (analysisWith True 450 None (Some [simEarthArrival]))"
    by (simp add: example_defs spec_defs)
  have b: "specPrimaryEarthSim (analysisWith True 450 None (Some [simEarthArrival])) = Some simEarthArrival"
    by (simp add: example_defs spec_defs)
  have c: "estimatedShockArrivalTime simEarthArrival = Some ''2024-03-01T12:00Z''"
    by (simp add: example_defs)
  have d: "''2024-03-01T12:00Z'' \<noteq> []" by simp
  have t: "specTierNoteOnly cmeNoteOnly = 3" by (simp add: example_defs spec_defs)
  from score_ordering[of cmeA "analysisWith True 450 None (Some [simEarthArrival])"
         simEarthArrival "''2024-03-01T12:00Z''"] a b c d
  have 1: "map_sum id earthImpactScore (enhanceCMEData cmeA) = Inr (Some 1)" by blast
  from score_ordering[of cmeNoteOnly] t
  have 2: "\<exists>e v. enhanceCMEData cmeNoteOnly = Inr e \<and> earthImpactScore e = Some v \<and> 3 \<le> v"
    by simp
  from a b c 1 t 2 show ?thesis by blast
qed

text \<open>As first stated the claim fails three ways: an Earth-flagged simulation with an
  arrival time that is not the first one, one whose arrival time is empty, and a note
  that mentions Earth on a CME without simulations, which scores 3 where the decision
  list as written gives no tier.\<close>

theorem score_ordering_counterexample:
  "hasEarthFlaggedArrival cmeLateArrival
   \<and> map_sum id earthImpactScore (enhanceCMEData cmeLateArrival) = Inr (Some 2)
   \<and> hasEarthFlaggedArrival cmeEmptyArrival
   \<and> map_sum id earthImpactScore (enhanceCMEData cmeEmptyArrival) = Inr (Some 2)
   \<and> map_sum id earthImpactScore (enhanceCMEData cmeNoteOnly) = Inr (Some 3)
   \<and> specTier cmeNoteOnly = \<infinity>"
  by (simp add: example_defs spec_defs enrich_defs)

text \<open>
  Claim C10. The score of an enhanced record is 1, 2, 3, 4 or \<open>Infinity\<close>, and when it is
  finite the record has \<open>isPotentiallyEarthDirected\<close> true. The converse fails: a CME with
  an analysis flagged most accurate, and whose analyses have no simulation and no note
  mentioning Earth, has the flag true and score \<open>Infinity\<close>.
\<close>

theorem finite_score_flag:
  "(enhanceCMEData cme = Inr e \<longrightarrow>
      earthImpactScore e \<in> {Some 1, Some 2, Some 3, Some 4, Some \<infinity>}
      \<and> (earthImpactScore e \<noteq> Some \<infinity> \<longrightarrow> isPotentiallyEarthDirected e = Some True))
   \<and> ((\<exists>a\<in>set (analysesOf other). isMostAccurate a)
       \<and> (\<forall>a\<in>set (analysesOf other). simulationsOf a = [] \<and> \<not> specNoteMentionsEarth a)
       \<longrightarrow> (\<exists>e'. enhanceCMEData other = Inr e'
              \<and> isPotentiallyEarthDirected e' = Some True
              \<and> earthImpactScore e' = Some \<infinity>))"
proof (intro conjI impI)
  assume e: "enhanceCMEData cme = Inr e"
  note s = enhance_score[OF e]
  then show "earthImpactScore e \<in> {Some 1, Some 2, Some 3, Some 4, Some \<infinity>}"
    by (auto split: option.splits)
  assume fin: "earthImpactScore e \<noteq> Some \<infinity>"
  with s obtain ra where ra: "relevantAnalysisOf cme = Some ra"
    by (cases "relevantAnalysisOf cme") auto
  have "isMostAccurate ra \<or> nonEmpty (enlilList ra) \<or> mentionsEarth (an_note ra)"
  proof (cases "firstEarthEnlilOf ra")
    case None
    with s fin ra show ?thesis by (auto split: if_splits)
  next
    case (Some sim)
    then have "simulationsOf ra \<noteq> []"
      by (auto simp: firstEarthEnlilOf_find dest: find_Some_set)
    then show ?thesis by (simp add: nonEmpty_simulations)
  qed
  moreover from ra have "ra \<in> set (analysesOf cme)" by (rule relevantAnalysis_mem)
  ultimately have "isPotentiallyEarthRelevant cme"
    by (cases "cmeAnalyses cme")
       (auto simp: isPotentiallyEarthRelevant_def analysesOf_def list_ex_iff)
  with enhance_flag[OF e] show "isPotentiallyEarthDirected e = Some True" by simp
next
  assume h: "(\<exists>a\<in>set (analysesOf other). isMostAccurate a)
       \<and> (\<forall>a\<in>set (analysesOf other). simulationsOf a = [] \<and> \<not> specNoteMentionsEarth a)"
  obtain e' where e': "enhanceCMEData other = Inr e'" using enhance_returns by blast
  from h obtain ra where ra: "relevantAnalysisOf other = Some ra" "ra \<in> set (analysesOf other)"
    using relevantAnalysis_accurate by blast
  with h have n: "simulationsOf ra = []" "\<not> mentionsEarth (an_note ra)"
    by (auto simp: specNoteMentionsEarth_eq)
  then have "firstEarthEnlilOf ra = None" by (simp add: firstEarthEnlilOf_find)
  with enhance_score[OF e'] ra n have sc: "earthImpactScore e' = Some \<infinity>"
    by (simp add: nonEmpty_simulations)
  from h have "isPotentiallyEarthRelevant other"
    by (cases "cmeAnalyses other")
       (auto simp: isPotentiallyEarthRelevant_def analysesOf_def list_ex_iff)
  with enhance_flag[OF e'] have "isPotentiallyEarthDirected e' = Some True" by simp
  with e' sc show "\<exists>e'. enhanceCMEData other = Inr e'
              \<and> isPotentiallyEarthDirected e' = Some True
              \<and> earthImpactScore e' = Some \<infinity>" by blast
qed

text \<open>Scenario A for the first half, the CME with only a most accurate analysis for the
  second.\<close>

theorem finite_score_flag_witness:
  "enhanceCMEData cmeA = Inr enhancedA
   \<and> earthImpactScore enhancedA = Some 1
   \<and> isPotentiallyEarthDirected enhancedA = Some True
   \<and> analysesOf cmeAccurateOnly = [analysisWith True 450 (Some ''faint halo'') None]
   \<and> isMostAccurate (analysisWith True 450 (Some ''faint halo'') None)
   \<and> simulationsOf (analysisWith True 450 (Some ''faint halo'') None) = []
   \<and> \<not> specNoteMentionsEarth (analysisWith True 450 (Some ''faint halo'') None)
   \<and> (\<exists>e'. enhanceCMEData cmeAccurateOnly = Inr e'
          \<and> isPotentiallyEarthDirected e' = Some True
          \<and> earthImpactScore e' = Some \<infinity>)"
proof -
  have a: "enhanceCMEData cmeA = Inr enhancedA"
    by (simp add: example_defs enrich_defs)
  have s: "earthImpactScore enhancedA = Some 1" by (simp add: enhancedA_def)
  have k: "analysesOf cmeAccurateOnly = [analysisWith True 450 (Some ''faint halo'') None]"
    "isMostAccurate (analysisWith True 450 (Some ''faint halo'') None)"
    "simulationsOf (analysisWith True 450 (Some ''faint halo'') None) = []"
    "\<not> specNoteMentionsEarth (analysisWith True 450 (Some ''faint halo'') None)"
    by (simp_all add: example_defs spec_defs)
  from finite_score_flag[of cmeA enhancedA] a s
  have 1: "isPotentiallyEarthDirected enhancedA = Some True" by simp
  from finite_score_flag[of _ _ cmeAccurateOnly] k
  have 2: "\<exists>e'. enhanceCMEData cmeAccurateOnly = Inr e'
          \<and> isPotentiallyEarthDirected e' = Some True
          \<and> earthImpactScore e' = Some \<infinity>" by simp
  from a s 1 k 2 show ?thesis by blast
qed

section \<open>Claims about ranking and partition\<close>

text \<open>
  Claim C3, amended. For every list of enhanced CMEs whose identifiers are pairwise
  distinct and whose scores are 1, 2, 3, 4 or \<open>Infinity\<close>, the two lists together hold
  every input element exactly once; \<open>earthDirected\<close> holds exactly the elements with score
  at most 3 and \<open>other\<close> exactly those with score 4 or \<open>Infinity\<close>, in input order. The code
  builds \<open>other\<close> from the identifiers that do not occur in \<open>earthDirected\<close>, so an element
  that shares its identifier with an Earth-directed one is dropped from both lists.
\<close>

theorem partition_complete:
  assumes "distinct (map activityID processedCMEs)"
    and "\<forall>cme\<in>set processedCMEs.
           earthImpactScore cme \<in> {Some 1, Some 2, Some 3, Some 4, Some \<infinity>}"
  shows "mset (earthDirectedCMEs clock processedCMEs) + mset (otherCMEs clock processedCMEs)
           = mset processedCMEs
     \<and> distinct processedCMEs
     \<and> set (earthDirectedCMEs clock processedCMEs)
           = {cme \<in> set processedCMEs. \<exists>v. earthImpactScore cme = Some v \<and> v \<le> 3}
     \<and> otherCMEs clock processedCMEs
           = filter (\<lambda>cme. earthImpactScore cme = Some 4 \<or> earthImpactScore cme = Some \<infinity>)
               processedCMEs"
proof -
  let ?P = "\<lambda>c. orInfinity (earthImpactScore c) \<le> 3"
  have o: "otherCMEs clock processedCMEs = filter (\<lambda>c. \<not> ?P c) processedCMEs"
    by (rule otherCMEs_distinct[OF assms(1)])
  have 1: "mset (earthDirectedCMEs clock processedCMEs) + mset (otherCMEs clock processedCMEs)
           = mset processedCMEs"
    by (simp add: o mset_earthDirected)
  have 2: "distinct processedCMEs" using assms(1) by (simp add: distinct_map)
  have 3: "set (earthDirectedCMEs clock processedCMEs)
           = {cme \<in> set processedCMEs. \<exists>v. earthImpactScore cme = Some v \<and> v \<le> 3}"
    using assms(2) by (auto simp: set_earthDirected orInfinity_valid(1))
  have 4: "otherCMEs clock processedCMEs
           = filter (\<lambda>cme. earthImpactScore cme = Some 4 \<or> earthImpactScore cme = Some \<infinity>)
               processedCMEs"
    unfolding o using assms(2) by (intro filter_cong refl) (simp add: orInfinity_valid(2))
  from 1 2 3 4 show ?thesis by blast
qed

text \<open>Four records with distinct identifiers and scores 2, 1, 4 and 1.\<close>

theorem partition_complete_witness:
  "distinct (map activityID [rankTwo, rankTen, rankFour, rankEight])
   \<and> earthImpactScore rankTwo = Some 2 \<and> earthImpactScore rankTen = Some 1
   \<and> earthImpactScore rankFour = Some 4 \<and> earthImpactScore rankEight = Some 1
   \<and> mset (earthDirectedCMEs demoClock [rankTwo, rankTen, rankFour, rankEight])
       + mset (otherCMEs demoClock [rankTwo, rankTen, rankFour, rankEight])
       = mset [rankTwo, rankTen, rankFour, rankEight]
   \<and> otherCMEs demoClock [rankTwo, rankTen, rankFour, rankEight] = [rankFour]"
proof -
  have d: "distinct (map activityID [rankTwo, rankTen, rankFour, rankEight])"
    by (simp add: rank_defs)
  have s: "earthImpactScore rankTwo = Some 2" "earthImpactScore rankTen = Some 1"
    "earthImpactScore rankFour = Some 4" "earthImpactScore rankEight = Some 1"
    by (simp_all add: rank_defs)
  then have v: "\<forall>cme\<in>set [rankTwo, rankTen, rankFour, rankEight].
           earthImpactScore cme \<in> {Some 1, Some 2, Some 3, Some 4, Some \<infinity>}"
    by simp
  note p = partition_complete[OF d v, of demoClock]
  from p have m: "mset (earthDirectedCMEs demoClock [rankTwo, rankTen, rankFour, rankEight])
       + mset (otherCMEs demoClock [rankTwo, rankTen, rankFour, rankEight])
       = mset [rankTwo, rankTen, rankFour, rankEight]" by blast
  from p have "otherCMEs demoClock [rankTwo, rankTen, rankFour, rankEight]
       = filter (\<lambda>cme. earthImpactScore cme = Some 4 \<or> earthImpactScore cme = Some \<infinity>)
           [rankTwo, rankTen, rankFour, rankEight]" by blast
  also have "\<dots> = [rankFour]" using s by (simp add: numeral_eq_enat one_enat_def)
  finally have o: "otherCMEs demoClock [rankTwo, rankTen, rankFour, rankEight] = [rankFour]" .
  from d s m o show ?thesis by blast
qed

text \<open>Two feed records under one identifier, the first scoring 1 and the second
  \<open>Infinity\<close>: the second is in neither list.\<close>

theorem partition_duplicate_id_counterexample:
  "enhanceAll [cmeA, cmeADup] = Inr [enhancedA, enhancedADup]
   \<and> partitionCMEs demoClock [enhancedA, enhancedADup] = ([enhancedA], [])
   \<and> enhancedA \<noteq> enhancedADup
   \<and> earthImpactScore enhancedADup = Some \<infinity>"
  by (simp add: example_defs enrich_defs sort_defs)

text \<open>
  Claim C4, amended. For every list of enhanced CMEs in which each entry scoring at most
  3 has a start time that is a date and, if it scores 1 and has an arrival time, an
  arrival time that is a date, \<open>earthDirected\<close> is ordered by ascending score; two entries
  that both score exactly 1 by ascending arrival time, an entry without arrival time
  after every entry that has one; and every remaining tie by descending start time. In
  particular two CMEs that score 1, with arrival times \<open>2024-01-01T10:00Z\<close> and
  \<open>2024-01-01T08:00Z\<close>, come out with the earlier arrival first, whichever order they
  went in. The order is \<open>specRankedBefore\<close>, written from section 4.3 over the fields of
  the records.
\<close>

theorem earthDirected_order:
  "((\<forall>cme\<in>set (earthDirectedCMEs clock processedCMEs). validTimes clock cme)
      \<longrightarrow> sorted_wrt (specRankedBefore clock) (earthDirectedCMEs clock processedCMEs))
   \<and> (earthImpactScore a = Some 1 \<and> earthImpactScore b = Some 1
       \<and> displayEnlilArrivalTime a = Some ''2024-01-01T10:00Z''
       \<and> displayEnlilArrivalTime b = Some ''2024-01-01T08:00Z''
       \<and> clock ''2024-01-01T10:00Z'' = Some ten \<and> clock ''2024-01-01T08:00Z'' = Some eight
       \<and> eight < ten
       \<longrightarrow> earthDirectedCMEs clock [a, b] = [b, a] \<and> earthDirectedCMEs clock [b, a] = [b, a])"
proof (intro conjI impI)
  assume "\<forall>cme\<in>set (earthDirectedCMEs clock processedCMEs). validTimes clock cme"
  then show "sorted_wrt (specRankedBefore clock) (earthDirectedCMEs clock processedCMEs)"
    by (rule earthDirected_sorted)
next
  assume h: "earthImpactScore a = Some 1 \<and> earthImpactScore b = Some 1
       \<and> displayEnlilArrivalTime a = Some ''2024-01-01T10:00Z''
       \<and> displayEnlilArrivalTime b = Some ''2024-01-01T08:00Z''
       \<and> clock ''2024-01-01T10:00Z'' = Some ten \<and> clock ''2024-01-01T08:00Z'' = Some eight
       \<and> eight < ten"
  then show "earthDirectedCMEs clock [a, b] = [b, a]"
    by (intro earthDirected_pair(1)[of a b "''2024-01-01T10:00Z''" "''2024-01-01T08:00Z''" clock ten eight]) simp_all
  from h show "earthDirectedCMEs clock [b, a] = [b, a]"
    by (intro earthDirected_pair(2)[of a b "''2024-01-01T10:00Z''" "''2024-01-01T08:00Z''" clock ten eight]) simp_all
qed

text \<open>Seven records: three scoring 1, one of them without arrival time; two scoring 2
  with different start times; one scoring 3 whose arrival time is no date; one scoring 4.
  The record without arrival time stands after the two that have one.\<close>

theorem earthDirected_order_witness:
  "earthDirectedCMEs demoClock [rankTwo, rankThree, rankNoArrival, rankTen, rankFour, rankTwoLate, rankEight]
       = [rankEight, rankTen, rankNoArrival, rankTwoLate, rankTwo, rankThree]
   \<and> validTimes demoClock rankEight \<and> validTimes demoClock rankTen
   \<and> validTimes demoClock rankNoArrival \<and> validTimes demoClock rankTwoLate
   \<and> validTimes demoClock rankTwo \<and> validTimes demoClock rankThree
   \<and> displayEnlilArrivalTime rankThree = Some ''to be determined''
   \<and> demoClock ''to be determined'' = None
   \<and> sorted_wrt (specRankedBefore demoClock)
        [rankEight, rankTen, rankNoArrival, rankTwoLate, rankTwo, rankThree]
   \<and> specRankedBefore demoClock rankTen rankNoArrival
   \<and> \<not> specRankedBefore demoClock rankNoArrival rankTen
   \<and> \<not> specRankedBefore demoClock rankTwo rankTwoLate
   \<and> earthImpactScore rankTen = Some 1 \<and> earthImpactScore rankEight = Some 1
   \<and> displayEnlilArrivalTime rankTen = Some ''2024-01-01T10:00Z''
   \<and> displayEnlilArrivalTime rankEight = Some ''2024-01-01T08:00Z''
   \<and> demoClock ''2024-01-01T10:00Z'' = Some 1704103200000
   \<and> demoClock ''2024-01-01T08:00Z'' = Some 1704096000000
   \<and> (1704096000000::int) < 1704103200000
   \<and> earthDirectedCMEs demoClock [rankTen, rankEight] = [rankEight, rankTen]
   \<and> earthDirectedCMEs demoClock [rankEight, rankTen] = [rankEight, rankTen]"
proof -
  have e: "earthDirectedCMEs demoClock
             [rankTwo, rankThree, rankNoArrival, rankTen, rankFour, rankTwoLate, rankEight]
       = [rankEight, rankTen, rankNoArrival, rankTwoLate, rankTwo, rankThree]"
    by (simp add: rank_defs sort_defs)
  have v: "validTimes demoClock rankEight" "validTimes demoClock rankTen"
    "validTimes demoClock rankNoArrival" "validTimes demoClock rankTwoLate"
    "validTimes demoClock rankTwo" "validTimes demoClock rankThree"
    "displayEnlilArrivalTime rankThree = Some ''to be determined''"
    "demoClock ''to be determined'' = None"
    by (simp_all add: validTimes_def rank_defs demoClock_def one_enat_def numeral_eq_enat)
  then have va: "\<forall>cme\<in>set (earthDirectedCMEs demoClock
             [rankTwo, rankThree, rankNoArrival, rankTen, rankFour, rankTwoLate, rankEight]).
           validTimes demoClock cme"
    by (simp add: e)
  have p: "specRankedBefore demoClock rankTen rankNoArrival"
    "\<not> specRankedBefore demoClock rankNoArrival rankTen"
    "\<not> specRankedBefore demoClock rankTwo rankTwoLate"
    by (simp_all add: order_defs rank_defs)
  have k: "earthImpactScore rankTen = Some 1" "earthImpactScore rankEight = Some 1"
    "displayEnlilArrivalTime rankTen = Some ''2024-01-01T10:00Z''"
    "displayEnlilArrivalTime rankEight = Some ''2024-01-01T08:00Z''"
    "demoClock ''2024-01-01T10:00Z'' = Some 1704103200000"
    "demoClock ''2024-01-01T08:00Z'' = Some 1704096000000"
    "(1704096000000::int) < 1704103200000"
    by (simp_all add: rank_defs demoClock_def)
  note t = earthDirected_order[of demoClock
      "[rankTwo, rankThree, rankNoArrival, rankTen, rankFour, rankTwoLate, rankEight]"
      rankTen rankEight 1704103200000 1704096000000]
  from t[THEN conjunct1, THEN mp, OF va]
  have 1: "sorted_wrt (specRankedBefore demoClock)
        [rankEight, rankTen, rankNoArrival, rankTwoLate, rankTwo, rankThree]"
    by (simp only: e)
  from k have kk: "earthImpactScore rankTen = Some 1 \<and> earthImpactScore rankEight = Some 1
       \<and> displayEnlilArrivalTime rankTen = Some ''2024-01-01T10:00Z''
       \<and> displayEnlilArrivalTime rankEight = Some ''2024-01-01T08:00Z''
       \<and> demoClock ''2024-01-01T10:00Z'' = Some 1704103200000
       \<and> demoClock ''2024-01-01T08:00Z'' = Some 1704096000000
       \<and> (1704096000000::int) < 1704103200000"
    by (intro conjI)
  from t[THEN conjunct2, THEN mp, OF kk]
  have 2: "earthDirectedCMEs demoClock [rankTen, rankEight] = [rankEight, rankTen]"
    "earthDirectedCMEs demoClock [rankEight, rankTen] = [rankEight, rankTen]"
    by simp_all
  from e v 1 p k 2 show ?thesis by (intro conjI)
qed

text \<open>The claim as first stated covers every list. Two records that score 2, one of them
  with a start time that is no date, come out in the order they went in, whichever that
  is; so do two records that score 1, one of them with an arrival time that is no date.
  The comparator returns \<open>NaN\<close> for each pair in both directions, which the sort reads
  as a tie.\<close>

theorem unparsed_time_keeps_input_order:
  "earthImpactScore rankNoDate = Some 2 \<and> earthImpactScore rankTwo = Some 2
   \<and> startTime rankNoDate = ''not a date'' \<and> startTime rankTwo = ''2023-12-30T00:00Z''
   \<and> earthDirectedCMEs demoClock [rankNoDate, rankTwo] = [rankNoDate, rankTwo]
   \<and> earthDirectedCMEs demoClock [rankTwo, rankNoDate] = [rankTwo, rankNoDate]
   \<and> \<not> sorted_wrt (specRankedBefore demoClock) [rankNoDate, rankTwo]
   \<and> \<not> sorted_wrt (specRankedBefore demoClock) [rankTwo, rankNoDate]
   \<and> earthImpactScore rankArrivalNoDate = Some 1 \<and> earthImpactScore rankEight = Some 1
   \<and> displayEnlilArrivalTime rankArrivalNoDate = Some ''to be determined''
   \<and> displayEnlilArrivalTime rankEight = Some ''2024-01-01T08:00Z''
   \<and> earthDirectedCMEs demoClock [rankArrivalNoDate, rankEight] = [rankArrivalNoDate, rankEight]
   \<and> earthDirectedCMEs demoClock [rankEight, rankArrivalNoDate] = [rankEight, rankArrivalNoDate]
   \<and> \<not> sorted_wrt (specRankedBefore demoClock) [rankArrivalNoDate, rankEight]
   \<and> \<not> sorted_wrt (specRankedBefore demoClock) [rankEight, rankArrivalNoDate]"
proof -
  have 0: "earthImpactScore rankNoDate = Some 2" "earthImpactScore rankTwo = Some 2"
    "startTime rankNoDate = ''not a date''" "startTime rankTwo = ''2023-12-30T00:00Z''"
    "earthImpactScore rankArrivalNoDate = Some 1" "earthImpactScore rankEight = Some 1"
    "displayEnlilArrivalTime rankArrivalNoDate = Some ''to be determined''"
    "displayEnlilArrivalTime rankEight = Some ''2024-01-01T08:00Z''"
    by (simp_all add: rank_defs)
  have 1: "earthDirectedCMEs demoClock [rankNoDate, rankTwo] = [rankNoDate, rankTwo]"
    "earthDirectedCMEs demoClock [rankTwo, rankNoDate] = [rankTwo, rankNoDate]"
    "earthDirectedCMEs demoClock [rankArrivalNoDate, rankEight] = [rankArrivalNoDate, rankEight]"
    "earthDirectedCMEs demoClock [rankEight, rankArrivalNoDate] = [rankEight, rankArrivalNoDate]"
    by (simp_all add: rank_defs sort_defs)
  have 2: "\<not> sorted_wrt (specRankedBefore demoClock) [rankNoDate, rankTwo]"
    "\<not> sorted_wrt (specRankedBefore demoClock) [rankTwo, rankNoDate]"
    "\<not> sorted_wrt (specRankedBefore demoClock) [rankArrivalNoDate, rankEight]"
    "\<not> sorted_wrt (specRankedBefore demoClock) [rankEight, rankArrivalNoDate]"
    by (simp_all add: order_defs rank_defs)
  from 0 1 2 show ?thesis by (intro conjI)
qed

section \<open>Claims about correlation\<close>

text \<open>
  Claim C7. For every flare and every list of enhanced CMEs, the flare's associated CMEs
  are the projections (activityID, startTime, note, link, earthImpactScore) of the CMEs
  that the identifiers of its \<open>linkedEvents\<close> resolve to, in the order of \<open>linkedEvents\<close>;
  an identifier resolves to the last CME of the list that carries it, an identifier that
  does not resolve is skipped, and when none resolves the field is absent. So a flare
  that references three identifiers of which two resolve gets exactly those two entries,
  in reference order.
\<close>

theorem flare_correlation:
  "associatedCMEs (correlateFlare (cmeMapOf enhancedCmes) flare) =
     (let resolved = List.map_filter (\<lambda>le. cmeMapOf enhancedCmes (le_activityID le))
                       (linksOfFlare flare)
      in if resolved = [] then None
         else Some (map (\<lambda>cme. \<lparr> info_activityID = activityID cme,
                                   info_startTime = Some (startTime cme),
                                   info_note = Some (cme_note cme),
                                   info_link = Some (link cme),
                                   info_earthImpactScore = earthImpactScore cme \<rparr>)
                      resolved))
   \<and> cmeMapOf enhancedCmes k = find (\<lambda>cme. activityID cme = k) (rev enhancedCmes)
   \<and> (fl_linkedEvents flare = Some [l1, l2, l3]
       \<and> length (filter (\<lambda>le. cmeMapOf enhancedCmes (le_activityID le) \<noteq> None) [l1, l2, l3]) = 2
       \<longrightarrow> (\<exists>c1 c2. List.map_filter (\<lambda>le. cmeMapOf enhancedCmes (le_activityID le)) [l1, l2, l3]
                        = [c1, c2]
                  \<and> associatedCMEs (correlateFlare (cmeMapOf enhancedCmes) flare)
                        = Some [toAssociatedCMEInfo c1, toAssociatedCMEInfo c2]))"
proof (intro conjI impI)
  show "associatedCMEs (correlateFlare (cmeMapOf enhancedCmes) flare) =
     (let resolved = List.map_filter (\<lambda>le. cmeMapOf enhancedCmes (le_activityID le))
                       (linksOfFlare flare)
      in if resolved = [] then None
         else Some (map (\<lambda>cme. \<lparr> info_activityID = activityID cme,
                                   info_startTime = Some (startTime cme),
                                   info_note = Some (cme_note cme),
                                   info_link = Some (link cme),
                                   info_earthImpactScore = earthImpactScore cme \<rparr>)
                      resolved))"
    by (simp only: correlateFlare_assoc toAssociatedCMEInfo_fun)
next
  show "cmeMapOf enhancedCmes k = find (\<lambda>cme. activityID cme = k) (rev enhancedCmes)"
    by (rule cmeMapOf_last)
next
  let ?m = "cmeMapOf enhancedCmes"
  assume h: "fl_linkedEvents flare = Some [l1, l2, l3]
       \<and> length (filter (\<lambda>le. ?m (le_activityID le) \<noteq> None) [l1, l2, l3]) = 2"
  let ?r = "List.map_filter (\<lambda>le. ?m (le_activityID le)) [l1, l2, l3]"
  from h have "length ?r = 2" by (simp only: map_filter_the length_map)
  then obtain c1 c2 where r: "?r = [c1, c2]" using length_two by blast
  from h have "linksOfFlare flare = [l1, l2, l3]" by (simp add: linksOfFlare_def)
  with r have "associatedCMEs (correlateFlare ?m flare)
                        = Some [toAssociatedCMEInfo c1, toAssociatedCMEInfo c2]"
    by (simp only: correlateFlare_assoc Let_def) simp
  with r show "\<exists>c1 c2. ?r = [c1, c2]
                  \<and> associatedCMEs (correlateFlare ?m flare)
                        = Some [toAssociatedCMEInfo c1, toAssociatedCMEInfo c2]" by blast
qed

text \<open>The flare references \<open>A\<close>, \<open>Q\<close> and \<open>B\<close>; the set holds \<open>A\<close> and \<open>B\<close>.\<close>

theorem flare_correlation_witness:
  "fl_linkedEvents flareF
     = Some [\<lparr> le_activityID = ''A'' \<rparr>, \<lparr> le_activityID = ''Q'' \<rparr>, \<lparr> le_activityID = ''B'' \<rparr>]
   \<and> cmeMapOf [enhancedA, enhancedB] ''A'' = Some enhancedA
   \<and> cmeMapOf [enhancedA, enhancedB] ''Q'' = None
   \<and> cmeMapOf [enhancedA, enhancedB] ''B'' = Some enhancedB
   \<and> associatedCMEs (correlateFlare (cmeMapOf [enhancedA, enhancedB]) flareF)
       = Some [toAssociatedCMEInfo enhancedA, toAssociatedCMEInfo enhancedB]"
proof -
  let ?m = "cmeMapOf [enhancedA, enhancedB]"
  let ?ls = "[\<lparr> le_activityID = ''A'' \<rparr>, \<lparr> le_activityID = ''Q'' \<rparr>, \<lparr> le_activityID = ''B'' \<rparr>]"
  have f: "fl_linkedEvents flareF = Some ?ls" by (simp add: flareF_def)
  have m: "?m ''A'' = Some enhancedA" "?m ''Q'' = None" "?m ''B'' = Some enhancedB"
    by (simp_all add: cmeMapOf_def example_defs spreadCME_def)
  then have n: "length (filter (\<lambda>le. ?m (le_activityID le) \<noteq> None) ?ls) = 2" by simp
  from m have r: "List.map_filter (\<lambda>le. ?m (le_activityID le)) ?ls = [enhancedA, enhancedB]"
    by (simp add: List.map_filter_simps)
  note t = flare_correlation[of "[enhancedA, enhancedB]" flareF "''A''" "\<lparr> le_activityID = ''A'' \<rparr>"
         "\<lparr> le_activityID = ''Q'' \<rparr>" "\<lparr> le_activityID = ''B'' \<rparr>"]
  from t[THEN conjunct2, THEN conjunct2, THEN mp, OF conjI[OF f n]]
  obtain c1 c2 where c: "List.map_filter (\<lambda>le. ?m (le_activityID le)) ?ls = [c1, c2]"
    "associatedCMEs (correlateFlare ?m flareF)
       = Some [toAssociatedCMEInfo c1, toAssociatedCMEInfo c2]"
    by (elim exE conjE)
  from c(1) r have "c1 = enhancedA" "c2 = enhancedB" by simp_all
  with c(2) have a: "associatedCMEs (correlateFlare ?m flareF)
       = Some [toAssociatedCMEInfo enhancedA, toAssociatedCMEInfo enhancedB]" by simp
  from f m a show ?thesis by (intro conjI)
qed

text \<open>
  Claim C8, amended. For every shock and every lookup of enhanced CMEs: when the first
  identifier of \<open>linkedEvents\<close> that resolves gives the CME \<open>cme\<close>, the shock receives
  that CME's start time, link and activityID, and its speed unless the speed is 0, in
  which case the shock's speed stays absent; the identifiers behind it play no part. When
  no identifier resolves, the four fields are absent. The code copies the speed as
  \<open>displayAnalysisSpeed || undefined\<close>.
\<close>

theorem shock_correlation:
  "(ips_linkedEvents ips = Some (pre @ le # post)
      \<and> (\<forall>l\<in>set pre. cmeMap (le_activityID l) = None)
      \<and> cmeMap (le_activityID le) = Some cme
    \<longrightarrow> correlateIPS cmeMap ips =
          ips\<lparr> associatedCMESpeed :=
                 (if displayAnalysisSpeed cme = Some 0 then None else displayAnalysisSpeed cme),
               associatedCMEStartTime := Some (startTime cme),
               associatedCMELink := Some (link cme),
               associatedCMEActivityID := Some (activityID cme) \<rparr>)
   \<and> (ips_linkedEvents ips = None
       \<or> (\<exists>les. ips_linkedEvents ips = Some les \<and> (\<forall>l\<in>set les. cmeMap (le_activityID l) = None))
    \<longrightarrow> correlateIPS cmeMap ips =
          ips\<lparr> associatedCMESpeed := None, associatedCMEStartTime := None,
               associatedCMELink := None, associatedCMEActivityID := None \<rparr>)"
proof (intro conjI impI)
  assume "ips_linkedEvents ips = Some (pre @ le # post)
      \<and> (\<forall>l\<in>set pre. cmeMap (le_activityID l) = None)
      \<and> cmeMap (le_activityID le) = Some cme"
  then have a: "ips_linkedEvents ips = Some (pre @ le # post)"
    and b: "\<forall>l\<in>set pre. cmeMap (le_activityID l) = None"
    and c: "cmeMap (le_activityID le) = Some cme" by blast+
  have "correlateIPS cmeMap ips =
     ips\<lparr> associatedCMESpeed := orUndefined (displayAnalysisSpeed cme),
          associatedCMEStartTime := Some (startTime cme),
          associatedCMELink := Some (link cme),
          associatedCMEActivityID := Some (activityID cme) \<rparr>"
    by (rule correlateIPS_first[OF a b c])
  moreover have "orUndefined x = (if x = Some 0 then None else x)" for x
    by (cases x) (simp_all add: orUndefined_def)
  ultimately show "correlateIPS cmeMap ips =
          ips\<lparr> associatedCMESpeed :=
                 (if displayAnalysisSpeed cme = Some 0 then None else displayAnalysisSpeed cme),
               associatedCMEStartTime := Some (startTime cme),
               associatedCMELink := Some (link cme),
               associatedCMEActivityID := Some (activityID cme) \<rparr>"
    by simp
next
  assume "ips_linkedEvents ips = None
       \<or> (\<exists>les. ips_linkedEvents ips = Some les \<and> (\<forall>l\<in>set les. cmeMap (le_activityID l) = None))"
  then show "correlateIPS cmeMap ips =
          ips\<lparr> associatedCMESpeed := None, associatedCMEStartTime := None,
               associatedCMELink := None, associatedCMEActivityID := None \<rparr>"
    by (rule correlateIPS_none)
qed

text \<open>The shock references \<open>Q\<close>, \<open>A\<close> and \<open>B\<close>: \<open>A\<close> is taken, \<open>B\<close> ignored. A shock without
  \<open>linkedEvents\<close> keeps its four fields absent.\<close>

theorem shock_correlation_witness:
  "ips_linkedEvents shockS
     = Some ([\<lparr> le_activityID = ''Q'' \<rparr>] @ \<lparr> le_activityID = ''A'' \<rparr> # [\<lparr> le_activityID = ''B'' \<rparr>])
   \<and> cmeMapOf [enhancedA, enhancedB] ''Q'' = None
   \<and> cmeMapOf [enhancedA, enhancedB] ''A'' = Some enhancedA
   \<and> cmeMapOf [enhancedA, enhancedB] ''B'' = Some enhancedB
   \<and> correlateIPS (cmeMapOf [enhancedA, enhancedB]) shockS =
       shockS\<lparr> associatedCMESpeed := Some 450,
               associatedCMEStartTime := Some ''2024-02-28T10:00Z'',
               associatedCMELink := Some ''https://example.org/cme'',
               associatedCMEActivityID := Some ''A'' \<rparr>
   \<and> ips_linkedEvents (shockS\<lparr> ips_linkedEvents := None \<rparr>) = None
   \<and> correlateIPS (cmeMapOf [enhancedA, enhancedB]) (shockS\<lparr> ips_linkedEvents := None \<rparr>) =
       shockS\<lparr> ips_linkedEvents := None \<rparr>"
proof -
  let ?m = "cmeMapOf [enhancedA, enhancedB]"
  have f: "ips_linkedEvents shockS
     = Some ([\<lparr> le_activityID = ''Q'' \<rparr>] @ \<lparr> le_activityID = ''A'' \<rparr> # [\<lparr> le_activityID = ''B'' \<rparr>])"
    by (simp add: shockS_def)
  have m: "?m ''Q'' = None" "?m ''A'' = Some enhancedA" "?m ''B'' = Some enhancedB"
    by (simp_all add: cmeMapOf_def example_defs spreadCME_def)
  then have p: "\<forall>l\<in>set [\<lparr> le_activityID = ''Q'' \<rparr>]. ?m (le_activityID l) = None" by simp
  from m(2) have m2: "?m (le_activityID \<lparr> le_activityID = ''A'' \<rparr>) = Some enhancedA" by simp
  note t = shock_correlation[of shockS "[\<lparr> le_activityID = ''Q'' \<rparr>]" "\<lparr> le_activityID = ''A'' \<rparr>"
         "[\<lparr> le_activityID = ''B'' \<rparr>]" ?m enhancedA]
  from t[THEN conjunct1, THEN mp, OF conjI[OF f conjI[OF p m2]]]
  have "correlateIPS ?m shockS =
          shockS\<lparr> associatedCMESpeed :=
                 (if displayAnalysisSpeed enhancedA = Some 0 then None
                  else displayAnalysisSpeed enhancedA),
               associatedCMEStartTime := Some (startTime enhancedA),
               associatedCMELink := Some (link enhancedA),
               associatedCMEActivityID := Some (activityID enhancedA) \<rparr>" .
  then have 1: "correlateIPS ?m shockS =
       shockS\<lparr> associatedCMESpeed := Some 450,
               associatedCMEStartTime := Some ''2024-02-28T10:00Z'',
               associatedCMELink := Some ''https://example.org/cme'',
               associatedCMEActivityID := Some ''A'' \<rparr>"
    by (simp add: enhancedA_def)
  have n: "ips_linkedEvents (shockS\<lparr> ips_linkedEvents := None \<rparr>) = None" by simp
  note u = shock_correlation[of "shockS\<lparr> ips_linkedEvents := None \<rparr>" "[]"
         "\<lparr> le_activityID = ''A'' \<rparr>" "[]" ?m enhancedA]
  from u[THEN conjunct2, THEN mp, OF disjI1[OF n]]
  have "correlateIPS ?m (shockS\<lparr> ips_linkedEvents := None \<rparr>) =
          (shockS\<lparr> ips_linkedEvents := None \<rparr>)
            \<lparr> associatedCMESpeed := None, associatedCMEStartTime := None,
               associatedCMELink := None, associatedCMEActivityID := None \<rparr>" .
  then have 2: "correlateIPS ?m (shockS\<lparr> ips_linkedEvents := None \<rparr>) = shockS\<lparr> ips_linkedEvents := None \<rparr>"
    by (simp add: shockS_def)
  from f m 1 n 2 show ?thesis by (intro conjI)
qed

text \<open>The claim as first stated has the speed copied; a CME whose analysis has speed 0
  is found, and the shock's speed stays absent.\<close>

theorem zero_speed_not_copied:
  "enhanceCMEData cmeStill = Inr enhancedStill
   \<and> displayAnalysisSpeed enhancedStill = Some 0
   \<and> cmeMapOf [enhancedStill] ''Z'' = Some enhancedStill
   \<and> associatedCMEActivityID (correlateIPS (cmeMapOf [enhancedStill]) shockStill) = Some ''Z''
   \<and> associatedCMESpeed (correlateIPS (cmeMapOf [enhancedStill]) shockStill) = None"
  by (simp add: example_defs enrich_defs corr_defs)

text \<open>
  Claim C9. Correlating flares or shocks changes no enhanced CME. In the store, where
  \<open>cmeMap.set\<close> and \<open>linkedCMEInfos.push\<close> are writes, every object present before the
  correlation is the same object after it, so every field of every enhanced CME is
  unchanged and no CME object is added; the annotated flares and shocks are objects
  allocated by the correlation; and what they hold is what \<open>correlateFlares\<close> and
  \<open>correlateIPSEvents\<close> compute from the CMEs as they were before: values of fields,
  the type of an annotation having no place for a reference.
\<close>

theorem correlation_frame:
  "(r < length h \<longrightarrow>
      fst (correlateFlaresStore h cmeRefs flareRefs) ! r = h ! r
      \<and> fst (correlateIPSStore h cmeRefs ipsRefs) ! r = h ! r)
   \<and> readCME (fst (correlateFlaresStore h cmeRefs flareRefs)) c = readCME h c
   \<and> readCME (fst (correlateIPSStore h cmeRefs ipsRefs)) c = readCME h c
   \<and> (\<forall>n\<in>set (snd (correlateFlaresStore h cmeRefs flareRefs))
            \<union> set (snd (correlateIPSStore h cmeRefs ipsRefs)). length h \<le> n)
   \<and> ((\<forall>x\<in>set cmeRefs. readCME h x \<noteq> None) \<and> (\<forall>f\<in>set flareRefs. readFlare h f \<noteq> None)
       \<longrightarrow> map (readFlare (fst (correlateFlaresStore h cmeRefs flareRefs)))
               (snd (correlateFlaresStore h cmeRefs flareRefs))
           = map Some (correlateFlares (map (\<lambda>x. the (readCME h x)) cmeRefs)
                                       (map (\<lambda>f. the (readFlare h f)) flareRefs)))
   \<and> ((\<forall>x\<in>set cmeRefs. readCME h x \<noteq> None) \<and> (\<forall>s\<in>set ipsRefs. readShock h s \<noteq> None)
       \<longrightarrow> map (readShock (fst (correlateIPSStore h cmeRefs ipsRefs)))
               (snd (correlateIPSStore h cmeRefs ipsRefs))
           = map Some (correlateIPSEvents (map (\<lambda>x. the (readCME h x)) cmeRefs)
                                          (map (\<lambda>s. the (readShock h s)) ipsRefs)))"
proof (intro conjI impI ballI)
  assume "r < length h"
  then show "fst (correlateFlaresStore h cmeRefs flareRefs) ! r = h ! r"
    and "fst (correlateIPSStore h cmeRefs ipsRefs) ! r = h ! r"
    by (rule correlateFlaresStore_frame, rule correlateIPSStore_frame)
next
  show "readCME (fst (correlateFlaresStore h cmeRefs flareRefs)) c = readCME h c"
    by (simp add: readCME_correlateFlaresStore)
next
  show "readCME (fst (correlateIPSStore h cmeRefs ipsRefs)) c = readCME h c"
    by (simp add: readCME_correlateIPSStore)
next
  fix n assume "n \<in> set (snd (correlateFlaresStore h cmeRefs flareRefs))
            \<union> set (snd (correlateIPSStore h cmeRefs ipsRefs))"
  then show "length h \<le> n"
    using correlateFlaresStore_fresh[of h cmeRefs flareRefs]
      correlateIPSStore_fresh[of h cmeRefs ipsRefs]
    by blast
next
  assume "(\<forall>x\<in>set cmeRefs. readCME h x \<noteq> None) \<and> (\<forall>f\<in>set flareRefs. readFlare h f \<noteq> None)"
  then have a: "\<forall>x\<in>set cmeRefs. readCME h x \<noteq> None"
    and b: "\<forall>f\<in>set flareRefs. readFlare h f \<noteq> None" by blast+
  show "map (readFlare (fst (correlateFlaresStore h cmeRefs flareRefs)))
               (snd (correlateFlaresStore h cmeRefs flareRefs))
           = map Some (correlateFlares (map (\<lambda>x. the (readCME h x)) cmeRefs)
                                       (map (\<lambda>f. the (readFlare h f)) flareRefs))"
    by (rule correlateFlaresStore_pure[OF a b])
next
  assume "(\<forall>x\<in>set cmeRefs. readCME h x \<noteq> None) \<and> (\<forall>s\<in>set ipsRefs. readShock h s \<noteq> None)"
  then have a: "\<forall>x\<in>set cmeRefs. readCME h x \<noteq> None"
    and b: "\<forall>s\<in>set ipsRefs. readShock h s \<noteq> None" by blast+
  show "map (readShock (fst (correlateIPSStore h cmeRefs ipsRefs)))
               (snd (correlateIPSStore h cmeRefs ipsRefs))
           = map Some (correlateIPSEvents (map (\<lambda>x. the (readCME h x)) cmeRefs)
                                          (map (\<lambda>s. the (readShock h s)) ipsRefs))"
    by (rule correlateIPSStore_pure[OF a b])
qed

text \<open>The example store, two CMEs, a flare and a shock at the addresses 0 to 3. The flare
  correlation allocates the map at 4, the array at 5 and the annotated flare at 6, and
  writes the map twice and the array twice; the shock correlation allocates the map at 4
  and the annotated shock at 5. Both CMEs are unchanged.\<close>

theorem correlation_frame_witness:
  "(0::nat) < length demoStore
   \<and> readCME demoStore 0 = Some enhancedA \<and> readCME demoStore 1 = Some enhancedB
   \<and> readFlare demoStore 2 = Some flareF \<and> readShock demoStore 3 = Some shockS
   \<and> fst (correlateFlaresStore demoStore [0, 1] [2])
       = demoStore @ [CmeMap (Map.empty(''A'' \<mapsto> 0, ''B'' \<mapsto> 1)),
                      InfoArray [toAssociatedCMEInfo enhancedA, toAssociatedCMEInfo enhancedB],
                      FlareObj (flareF\<lparr> associatedCMEs :=
                        Some [toAssociatedCMEInfo enhancedA, toAssociatedCMEInfo enhancedB] \<rparr>)]
   \<and> snd (correlateFlaresStore demoStore [0, 1] [2]) = [6]
   \<and> snd (correlateIPSStore demoStore [0, 1] [3]) = [5]
   \<and> fst (correlateFlaresStore demoStore [0, 1] [2]) ! 0 = CmeObj enhancedA
   \<and> fst (correlateIPSStore demoStore [0, 1] [3]) ! 0 = CmeObj enhancedA
   \<and> readCME (fst (correlateFlaresStore demoStore [0, 1] [2])) 1 = Some enhancedB
   \<and> readCME (fst (correlateIPSStore demoStore [0, 1] [3])) 1 = Some enhancedB
   \<and> map (readFlare (fst (correlateFlaresStore demoStore [0, 1] [2])))
         (snd (correlateFlaresStore demoStore [0, 1] [2]))
       = [Some (correlateFlare (cmeMapOf [enhancedA, enhancedB]) flareF)]
   \<and> map (readShock (fst (correlateIPSStore demoStore [0, 1] [3])))
         (snd (correlateIPSStore demoStore [0, 1] [3]))
       = [Some (correlateIPS (cmeMapOf [enhancedA, enhancedB]) shockS)]"
proof -
  have l: "(0::nat) < length demoStore" by (simp add: demoStore_def)
  have r: "readCME demoStore 0 = Some enhancedA" "readCME demoStore 1 = Some enhancedB"
    by (simp_all add: demoStore_def readCME_def)
  have rf: "readFlare demoStore 2 = Some flareF" by (simp add: demoStore_def readFlare_def)
  have rs: "readShock demoStore 3 = Some shockS" by (simp add: demoStore_def readShock_def)
  have d: "demoStore ! 0 = CmeObj enhancedA" by (simp add: demoStore_def)
  have ids: "activityID enhancedA = ''A''" "activityID enhancedB = ''B''"
    by (simp_all add: example_defs spreadCME_def)
  have st: "fst (correlateFlaresStore demoStore [0, 1] [2])
       = demoStore @ [CmeMap (Map.empty(''A'' \<mapsto> 0, ''B'' \<mapsto> 1)),
                      InfoArray [toAssociatedCMEInfo enhancedA, toAssociatedCMEInfo enhancedB],
                      FlareObj (flareF\<lparr> associatedCMEs :=
                        Some [toAssociatedCMEInfo enhancedA, toAssociatedCMEInfo enhancedB] \<rparr>)]"
    by (simp add: demoStore_def store_defs ids flareF_def Let_def)
  have s: "snd (correlateFlaresStore demoStore [0, 1] [2]) = [6]"
    "snd (correlateIPSStore demoStore [0, 1] [3]) = [5]"
    by (simp_all add: demoStore_def store_defs ids flareF_def Let_def)
  have vc: "\<forall>x\<in>set [0, 1]. readCME demoStore x \<noteq> None" using r by simp
  have vf: "\<forall>f\<in>set [2]. readFlare demoStore f \<noteq> None" using rf by simp
  have vs: "\<forall>s\<in>set [3]. readShock demoStore s \<noteq> None" using rs by simp
  note t = correlation_frame[of 0 demoStore "[0, 1]" "[2]" "[3]" 1]
  from t[THEN conjunct1, THEN mp, OF l] d
  have 1: "fst (correlateFlaresStore demoStore [0, 1] [2]) ! 0 = CmeObj enhancedA"
    "fst (correlateIPSStore demoStore [0, 1] [3]) ! 0 = CmeObj enhancedA" by simp_all
  from t[THEN conjunct2, THEN conjunct1] t[THEN conjunct2, THEN conjunct2, THEN conjunct1] r(2)
  have 2: "readCME (fst (correlateFlaresStore demoStore [0, 1] [2])) 1 = Some enhancedB"
    "readCME (fst (correlateIPSStore demoStore [0, 1] [3])) 1 = Some enhancedB" by simp_all
  from t[THEN conjunct2, THEN conjunct2, THEN conjunct2, THEN conjunct2, THEN conjunct1,
         THEN mp, OF conjI[OF vc vf]] r rf
  have 3: "map (readFlare (fst (correlateFlaresStore demoStore [0, 1] [2])))
         (snd (correlateFlaresStore demoStore [0, 1] [2]))
       = [Some (correlateFlare (cmeMapOf [enhancedA, enhancedB]) flareF)]"
    by (simp add: correlateFlares_def)
  from t[THEN conjunct2, THEN conjunct2, THEN conjunct2, THEN conjunct2, THEN conjunct2,
         THEN mp, OF conjI[OF vc vs]] r rs
  have 4: "map (readShock (fst (correlateIPSStore demoStore [0, 1] [3])))
         (snd (correlateIPSStore demoStore [0, 1] [3]))
       = [Some (correlateIPS (cmeMapOf [enhancedA, enhancedB]) shockS)]"
    by (simp add: correlateIPSEvents_def)
  from l r rf rs st s 1 2 3 4 show ?thesis by (intro conjI)
qed

end
